theory Spec2Isabelle
  imports Main "HOL-Library.Sublist"
begin

text \<open>
  Two headers of \<^verbatim>\<open>cslibs_utility\<close>: \<^verbatim>\<open>buffered_vector.hpp\<close>, a vector of fixed capacity with
  a size of its own, and \<^verbatim>\<open>csv_writer.hpp\<close>, a logger whose \<^verbatim>\<open>write\<close> queues a line that a
  worker thread appends to a file. The definitions come first, the theorems after them.
\<close>

section \<open>Errors\<close>

text \<open>
  A C++ operation either returns, throws \<^verbatim>\<open>std::runtime_error\<close> with a message, or
  leaves the defined behaviour of the language (a read or write through a raw pointer
  outside the allocation). Both failures are values of the model.
\<close>

datatype error = Runtime_error string | Assertion_failed | Undefined_behaviour

section \<open>buffered\_vector\<close>

text \<open>
  \<^verbatim>\<open>buffered_vector<T>\<close> keeps \<^verbatim>\<open>std::size_t size_\<close>, \<^verbatim>\<open>std::vector<T> data_\<close> and the raw
  pointer \<^verbatim>\<open>T *data_ptr_\<close>. Every constructor and both \<^verbatim>\<open>resize\<close> overloads set the pointer
  to \<^verbatim>\<open>data_.data()\<close>; the class declares no copy constructor and no assignment, so the
  implicit ones copy the pointer as it is, and the copy's pointer aims at the buffer of
  the object it was copied from. Pointer and buffer are therefore separate fields, and
  the buffers live in a store. Isabelle identifiers cannot end in an underscore, so a
  member \<^verbatim>\<open>x_\<close> of the source is the field \<open>m_x\<close> here. \<^verbatim>\<open>size_t\<close> values are natural
  numbers: no operation below can wrap, \<^verbatim>\<open>++size_\<close> runs only after \<^verbatim>\<open>size_\<close> was compared
  with the length of an allocated vector.
\<close>

subsection \<open>The store\<close>

text \<open>
  The store maps the address of every live buffer to its elements; \<open>fresh\<close> is the next
  address the allocator hands out. A freed buffer has no entry.
\<close>

type_synonym addr = nat

record 'a memory =
  cells :: "addr \<Rightarrow> 'a list option"
  fresh :: addr

definition no_memory :: "'a memory" where
  "no_memory = \<lparr>cells = (\<lambda>a. None), fresh = 0\<rparr>"

definition alloc :: "'a list \<Rightarrow> 'a memory \<Rightarrow> addr \<times> 'a memory" where
  "alloc xs m = (fresh m, \<lparr>cells = (cells m)(fresh m \<mapsto> xs), fresh = fresh m + 1\<rparr>)"

definition release :: "addr option \<Rightarrow> 'a memory \<Rightarrow> 'a memory" where
  "release p m = (case p of None \<Rightarrow> m | Some a \<Rightarrow> m\<lparr>cells := (cells m)(a := None)\<rparr>)"

text \<open>
  The elements of the \<^verbatim>\<open>std::vector\<close> whose buffer is at \<open>p\<close>; a vector that never
  allocated has no buffer (\<open>None\<close>, the null pointer) and no elements.
\<close>

definition buffer :: "'a memory \<Rightarrow> addr option \<Rightarrow> 'a list" where
  "buffer m p =
     (case p of None \<Rightarrow> [] | Some a \<Rightarrow> (case cells m a of None \<Rightarrow> [] | Some xs \<Rightarrow> xs))"

text \<open>
  \<^verbatim>\<open>data_ptr_[i]\<close> as an rvalue: no check; through a null pointer, into a freed buffer or
  outside the allocation it is undefined.
\<close>

definition ptr_read :: "'a memory \<Rightarrow> addr option \<Rightarrow> nat \<Rightarrow> error + 'a" where
  "ptr_read m p i =
     (case p of
        None \<Rightarrow> Inl Undefined_behaviour
      | Some a \<Rightarrow>
          (case cells m a of
             None \<Rightarrow> Inl Undefined_behaviour
           | Some xs \<Rightarrow> (if i < length xs then Inr (xs ! i) else Inl Undefined_behaviour)))"

text \<open>\<^verbatim>\<open>data_ptr_[i] = value\<close>.\<close>

definition ptr_write :: "'a memory \<Rightarrow> addr option \<Rightarrow> nat \<Rightarrow> 'a \<Rightarrow> error + 'a memory" where
  "ptr_write m p i x =
     (case p of
        None \<Rightarrow> Inl Undefined_behaviour
      | Some a \<Rightarrow>
          (case cells m a of
             None \<Rightarrow> Inl Undefined_behaviour
           | Some xs \<Rightarrow>
               (if i < length xs then Inr (m\<lparr>cells := (cells m)(a \<mapsto> xs[i := x])\<rparr>)
                else Inl Undefined_behaviour)))"

text \<open>
  \<^verbatim>\<open>std::vector::resize(n, value)\<close> on the vector whose buffer is at \<open>p\<close>: cut to \<open>n\<close>
  elements in place, or move to a new buffer padded with copies of \<open>value\<close> and free the
  old one. The result is the address \<^verbatim>\<open>data()\<close> returns afterwards. (An implementation
  may also grow in place while its own reserve lasts; both \<^verbatim>\<open>resize\<close> overloads of the
  class store the resulting address in \<^verbatim>\<open>data_ptr_\<close> either way.)
\<close>

definition vector_resize ::
  "addr option \<Rightarrow> nat \<Rightarrow> 'a \<Rightarrow> 'a memory \<Rightarrow> addr option \<times> 'a memory" where
  "vector_resize p n x m =
     (if n \<le> length (buffer m p)
      then (case p of
              None \<Rightarrow> (None, m)
            | Some a \<Rightarrow> (Some a, m\<lparr>cells := (cells m)(a \<mapsto> take n (buffer m p))\<rparr>))
      else (case alloc (buffer m p @ replicate (n - length (buffer m p)) x) (release p m) of
              (b, m') \<Rightarrow> (Some b, m')))"

subsection \<open>The class\<close>

text \<open>\<open>m_data\<close> is the buffer that \<^verbatim>\<open>data_\<close> owns, \<open>m_data_ptr\<close> the value of \<^verbatim>\<open>data_ptr_\<close>.\<close>

record buffered_vector =
  m_size :: nat
  m_data :: "addr option"
  m_data_ptr :: "addr option"

text \<open>The default constructor: \<^verbatim>\<open>size_(0)\<close>, an empty \<^verbatim>\<open>data_\<close>, \<^verbatim>\<open>data_ptr_(nullptr)\<close>.\<close>

definition buffered_vector0 :: buffered_vector where
  "buffered_vector0 = \<lparr>m_size = 0, m_data = None, m_data_ptr = None\<rparr>"

text \<open>
  \<^verbatim>\<open>buffered_vector(size, capacity, default_value)\<close>: \<^verbatim>\<open>size_(size), data_(capacity,
  default_value), data_ptr_(data_.data())\<close> and \<^verbatim>\<open>assert(size <= capacity)\<close>, which aborts
  a build that keeps its assertions (\<open>asserts\<close>) and is absent under \<^verbatim>\<open>NDEBUG\<close>. The
  two-argument constructor is this one at \<^verbatim>\<open>T()\<close>, the one-argument constructor this one
  at \<^verbatim>\<open>capacity = size\<close>.
\<close>

definition buffered_vector3 ::
  "bool \<Rightarrow> nat \<Rightarrow> nat \<Rightarrow> 'a \<Rightarrow> 'a memory \<Rightarrow> error + buffered_vector \<times> 'a memory" where
  "buffered_vector3 asserts n cap x m =
     (if asserts \<and> \<not> n \<le> cap then Inl Assertion_failed
      else (case alloc (replicate cap x) m of
              (a, m') \<Rightarrow> Inr (\<lparr>m_size = n, m_data = Some a, m_data_ptr = Some a\<rparr>, m')))"

text \<open>
  The implicit copy constructor copies member by member: \<^verbatim>\<open>size_\<close>, a new \<^verbatim>\<open>data_\<close> with
  the elements of the source (an empty source vector allocates nothing), and the
  pointer value \<^verbatim>\<open>data_ptr_\<close> of the source.
\<close>

definition copy_bv :: "buffered_vector \<Rightarrow> 'a memory \<Rightarrow> buffered_vector \<times> 'a memory" where
  "copy_bv v m =
     (case m_data v of
        None \<Rightarrow> (\<lparr>m_size = m_size v, m_data = None, m_data_ptr = m_data_ptr v\<rparr>, m)
      | Some a \<Rightarrow>
          (case alloc (buffer m (Some a)) m of
             (b, m') \<Rightarrow> (\<lparr>m_size = m_size v, m_data = Some b, m_data_ptr = m_data_ptr v\<rparr>, m')))"

text \<open>The implicit destructor frees the buffer of \<^verbatim>\<open>data_\<close>.\<close>

definition destroy :: "buffered_vector \<Rightarrow> 'a memory \<Rightarrow> 'a memory" where
  "destroy v m = release (m_data v) m"

text \<open>\<^verbatim>\<open>capacity()\<close> is \<^verbatim>\<open>data_.size()\<close>; \<^verbatim>\<open>size()\<close> is \<^verbatim>\<open>size_\<close>.\<close>

definition capacity :: "'a memory \<Rightarrow> buffered_vector \<Rightarrow> nat" where
  "capacity m v = length (buffer m (m_data v))"

definition size_bv :: "buffered_vector \<Rightarrow> nat" where
  "size_bv v = m_size v"

text \<open>\<^verbatim>\<open>*(begin() + i)\<close>: \<^verbatim>\<open>begin()\<close> is \<^verbatim>\<open>data_.begin()\<close>, the object's own buffer.\<close>

definition begin_at :: "'a memory \<Rightarrow> buffered_vector \<Rightarrow> nat \<Rightarrow> error + 'a" where
  "begin_at m v i = ptr_read m (m_data v) i"

text \<open>\<^verbatim>\<open>operator[]\<close>: \<^verbatim>\<open>return data_ptr_[i];\<close>\<close>

definition subscript :: "'a memory \<Rightarrow> buffered_vector \<Rightarrow> nat \<Rightarrow> error + 'a" where
  "subscript m v i = ptr_read m (m_data_ptr v) i"

text \<open>\<^verbatim>\<open>at\<close>: \<^verbatim>\<open>if (i >= size_) throw std::runtime_error("Index out of bounds!"); return data_ptr_[i];\<close>\<close>

definition at_bv :: "'a memory \<Rightarrow> buffered_vector \<Rightarrow> nat \<Rightarrow> error + 'a" where
  "at_bv m v i =
     (if i \<ge> m_size v then Inl (Runtime_error ''Index out of bounds!'')
      else ptr_read m (m_data_ptr v) i)"

text \<open>
  \<^verbatim>\<open>resize(size, default_value)\<close>:
  \<^verbatim>\<open>size_ = 0ul; data_.resize(size, default_value); data_ptr_ = data_.data();\<close>
\<close>

definition resize ::
  "nat \<Rightarrow> 'a \<Rightarrow> buffered_vector \<Rightarrow> 'a memory \<Rightarrow> buffered_vector \<times> 'a memory" where
  "resize n x v m =
     (case vector_resize (m_data v) n x m of
        (d, m') \<Rightarrow> (\<lparr>m_size = 0, m_data = d, m_data_ptr = d\<rparr>, m'))"

text \<open>
  \<^verbatim>\<open>resize(size, capacity, default_value)\<close>:
  \<^verbatim>\<open>size_ = size; data_.resize(capacity, default_value); data_ptr_ = data_.data();\<close>
\<close>

definition resize2 ::
  "nat \<Rightarrow> nat \<Rightarrow> 'a \<Rightarrow> buffered_vector \<Rightarrow> 'a memory \<Rightarrow> buffered_vector \<times> 'a memory" where
  "resize2 n cap x v m =
     (case vector_resize (m_data v) cap x m of
        (d, m') \<Rightarrow> (\<lparr>m_size = n, m_data = d, m_data_ptr = d\<rparr>, m'))"

text \<open>
  \<^verbatim>\<open>push_back\<close>: throw when \<^verbatim>\<open>size_ == data_.size()\<close>, else \<^verbatim>\<open>data_ptr_[size_] = value;
  ++size_;\<close>
\<close>

definition push_back ::
  "'a \<Rightarrow> buffered_vector \<Rightarrow> 'a memory \<Rightarrow> error + buffered_vector \<times> 'a memory" where
  "push_back x v m =
     (if m_size v = length (buffer m (m_data v))
      then Inl (Runtime_error ''Buffered vector reached the capacity limit!'')
      else (case ptr_write m (m_data_ptr v) (m_size v) x of
              Inl e \<Rightarrow> Inl e
            | Inr m' \<Rightarrow> Inr (v\<lparr>m_size := m_size v + 1\<rparr>, m')))"

text \<open>\<^verbatim>\<open>emplace_back\<close> has the body of \<^verbatim>\<open>push_back\<close>.\<close>

definition emplace_back ::
  "'a \<Rightarrow> buffered_vector \<Rightarrow> 'a memory \<Rightarrow> error + buffered_vector \<times> 'a memory" where
  "emplace_back x v m =
     (if m_size v = length (buffer m (m_data v))
      then Inl (Runtime_error ''Buffered vector reached the capacity limit!'')
      else (case ptr_write m (m_data_ptr v) (m_size v) x of
              Inl e \<Rightarrow> Inl e
            | Inr m' \<Rightarrow> Inr (v\<lparr>m_size := m_size v + 1\<rparr>, m')))"

text \<open>\<^verbatim>\<open>clear\<close>: \<^verbatim>\<open>size_ = 0;\<close>\<close>

definition clear :: "buffered_vector \<Rightarrow> buffered_vector" where
  "clear v = v\<lparr>m_size := 0\<rparr>"

text \<open>
  A vector is sound in a store when its pointer aims at its own buffer, the buffer is
  live, and the size does not exceed the capacity.
\<close>

definition sound :: "'a memory \<Rightarrow> buffered_vector \<Rightarrow> bool" where
  "sound m v =
     (m_data_ptr v = m_data v \<and> m_size v \<le> length (buffer m (m_data v))
      \<and> (case m_data v of None \<Rightarrow> True | Some a \<Rightarrow> cells m a \<noteq> None))"

section \<open>Text rendering\<close>

text \<open>
  \<^verbatim>\<open>toString<T>\<close> is \<^verbatim>\<open>std::to_string\<close>, and the identity on \<^verbatim>\<open>std::string\<close>.
  \<^verbatim>\<open>std::to_string\<close> prints an integer in decimal (\<^verbatim>\<open>%d\<close> and its wider forms) and a
  floating-point value as \<^verbatim>\<open>%f\<close> does: fixed notation, six digits after the point, the
  exact binary value rounded to nearest, ties to even. The six digits of a fraction \<open>f\<close>
  (in millionths) are the seven digits of \<open>10\<^sup>6 + f\<close> without the leading one.
\<close>

fun digits :: "nat \<Rightarrow> string" where
  "digits n =
     (if n < 10 then [''0123456789'' ! n]
      else digits (n div 10) @ [''0123456789'' ! (n mod 10)])"

declare digits.simps [simp del]

definition to_string_int :: "int \<Rightarrow> string" where
  "to_string_int i = (if i < 0 then ''-'' @ digits (nat (- i)) else digits (nat i))"

text \<open>
  A finite floating-point number is a sign, a mantissa and a binary exponent: the value
  of \<open>Double neg m e\<close> is \<open>\<plusminus> m \<cdot> 2\<^sup>e\<close>. Infinities and NaN are not represented.
\<close>

datatype double = Double (negative: bool) (mantissa: nat) (exponent: int)

text \<open>\<open>num / den\<close> rounded to the nearest natural number, a tie to the even one.\<close>

definition round_half_even :: "nat \<Rightarrow> nat \<Rightarrow> nat" where
  "round_half_even num den =
     (if 2 * (num mod den) > den \<or> (2 * (num mod den) = den \<and> odd (num div den))
      then num div den + 1 else num div den)"

text \<open>A number of millionths in fixed notation.\<close>

definition fixed6 :: "bool \<Rightarrow> nat \<Rightarrow> string" where
  "fixed6 neg scaled =
     (if neg then ''-'' else '''') @ digits (scaled div 10 ^ 6) @ ''.''
     @ tl (digits (10 ^ 6 + scaled mod 10 ^ 6))"

definition to_string_double :: "double \<Rightarrow> string" where
  "to_string_double d =
     fixed6 (negative d)
       (round_half_even
          (mantissa d * 10 ^ 6 * (if exponent d \<ge> 0 then 2 ^ nat (exponent d) else 1))
          (if exponent d \<ge> 0 then 1 else 2 ^ nat (- exponent d)))"

datatype field = Integer int | Floating double | Text string

fun toString :: "field \<Rightarrow> string" where
  "toString (Integer i) = to_string_int i"
| "toString (Floating d) = to_string_double d"
| "toString (Text str) = str"

text \<open>
  \<^verbatim>\<open>buildString(t, ts...)\<close> is \<^verbatim>\<open>toString(t) + "," + buildString(ts...)\<close> and
  \<^verbatim>\<open>buildString(t)\<close> is \<^verbatim>\<open>toString(t)\<close>. There is no overload without an argument, so a
  row is a first field and the list of the others.
\<close>

type_synonym row = "field \<times> field list"

fun buildString :: "field \<Rightarrow> field list \<Rightarrow> string" where
  "buildString t [] = toString t"
| "buildString t (u # ts) = toString t @ '','' @ buildString u ts"

definition build :: "row \<Rightarrow> string" where
  "build r = buildString (fst r) (snd r)"

definition nl :: string where
  "nl = [CHR 0x0A]"

section \<open>CSVWriter\<close>

text \<open>
  A \<^verbatim>\<open>CSVWriter\<close> is shared by the thread that runs \<^verbatim>\<open>loop()\<close> (started by either
  constructor), by the threads that call \<^verbatim>\<open>write\<close>, and by the thread that destroys it.
  The model is an interleaving of their atomic actions: every access to a shared member
  (\<^verbatim>\<open>q_\<close>, \<^verbatim>\<open>q_mutex_\<close>, \<^verbatim>\<open>stop_\<close>, \<^verbatim>\<open>notify_log_\<close>) is one step, the position of each thread
  in its code is part of the state, and a scheduler picks the thread that moves next.
  \<^verbatim>\<open>notify_mutex_\<close> is locked by the worker alone, so it never delays anyone and has no
  field here.
\<close>

subsection \<open>Configuration and state\<close>

text \<open>
  The members fixed by the constructor, and what the environment answers when the worker
  opens \<^verbatim>\<open>path_\<close>. The constructor without a header leaves \<^verbatim>\<open>has_header_\<close> false.
\<close>

record config =
  m_header :: "string list"
  m_has_header :: bool
  m_path :: string
  can_open :: bool

datatype thread = T_worker | T_producer nat

text \<open>
  Where the worker stands in \<^verbatim>\<open>loop()\<close>. The flag of the \<open>D_\<close> positions tells the two
  calls of \<^verbatim>\<open>dumpQ\<close> apart: \<open>False\<close> inside the \<^verbatim>\<open>while (!stop_)\<close> loop, \<open>True\<close> for the call
  after it. \<open>D_Unlock\<close> and \<open>D_Out\<close> carry the local \<^verbatim>\<open>f\<close>.
\<close>

datatype worker_pc =
    W_Open
  | W_IsOpen
  | W_Header
  | W_CheckStop
  | W_EnterWait
  | W_Waiting
  | D_Empty bool
  | D_Lock bool
  | D_Pop bool
  | D_Unlock bool string
  | D_Out bool string
  | W_Flush
  | W_Close
  | W_Returned
  | W_Undefined

text \<open>Where a producer stands in \<^verbatim>\<open>write\<close>; \<open>P_Built\<close> and \<open>P_Locked\<close> carry \<^verbatim>\<open>string_built\<close>.\<close>

datatype producer_pc = P_Idle | P_Built string | P_Locked string | P_Pushed | P_Notified

text \<open>A producer thread: the rows it has still to pass to \<^verbatim>\<open>write\<close>, and its position.\<close>

record producer =
  todo :: "row list"
  ppc :: producer_pc

text \<open>Where the owning thread stands in \<^verbatim>\<open>~CSVWriter\<close>.\<close>

datatype owner_pc = O_Alive | O_StopSet | O_Notified | O_Joined

text \<open>
  The members of the object, the stream \<^verbatim>\<open>out_\<close> (open flag and the characters it has
  accepted but not yet handed to the file), the file at \<^verbatim>\<open>path_\<close> (\<open>None\<close>: there is no
  such file), the standard error stream, and the threads. Three fields are history only
  and are never read by a step: \<open>pushed\<close> lists every \<^verbatim>\<open>q_.push\<close> so far, with the
  producer that made it; \<open>opens\<close> and \<open>closes\<close> count the successful \<^verbatim>\<open>out_.open\<close> and the
  \<^verbatim>\<open>out_.close\<close> calls.
\<close>

record state =
  wpc :: worker_pc
  producers :: "nat \<Rightarrow> producer"
  opc :: owner_pc
  m_q :: "string list"
  m_q_mutex :: "thread option"
  m_stop :: bool
  out_is_open :: bool
  out_buffer :: string
  disk :: "string option"
  cerr :: string
  pushed :: "(nat \<times> string) list"
  opens :: nat
  closes :: nat

text \<open>
  The state the constructor leaves: the worker at the start of \<^verbatim>\<open>loop()\<close>, producer \<open>i\<close>
  about to write \<open>rows i\<close>, \<^verbatim>\<open>stop_(false)\<close>, and the file as it was before
  (\<open>disk0\<close>).
\<close>

definition init :: "string option \<Rightarrow> (nat \<Rightarrow> row list) \<Rightarrow> state" where
  "init disk0 rows =
     \<lparr>wpc = W_Open, producers = (\<lambda>i. \<lparr>todo = rows i, ppc = P_Idle\<rparr>), opc = O_Alive,
      m_q = [], m_q_mutex = None, m_stop = False, out_is_open = False, out_buffer = [],
      disk = disk0, cerr = [], pushed = [], opens = 0, closes = 0\<rparr>"

subsection \<open>Steps\<close>

text \<open>
  \<^verbatim>\<open>notify_log_.notify_one()\<close> wakes the worker when it is blocked in \<^verbatim>\<open>wait\<close>, and does
  nothing otherwise. The woken worker continues with \<^verbatim>\<open>dumpQ()\<close> inside the loop.
\<close>

definition notify_one :: "state \<Rightarrow> state" where
  "notify_one s = (if wpc s = W_Waiting then s\<lparr>wpc := D_Empty False\<rparr> else s)"

text \<open>
  The header, as the loop of \<^verbatim>\<open>loop()\<close> writes it: \<^verbatim>\<open>header_[i]\<close> and a comma for
  \<^verbatim>\<open>i < size - 1\<close>, then \<^verbatim>\<open>header_[size - 1]\<close> and a newline. With \<^verbatim>\<open>size = 0\<close> the
  unsigned \<^verbatim>\<open>size - 1\<close> wraps and the loop reads past the empty array.
\<close>

definition header_text :: "string list \<Rightarrow> string option" where
  "header_text h =
     (if h = [] then None
      else Some (concat (map (\<lambda>i. h ! i @ '','') [0..<length h - 1]) @ h ! (length h - 1) @ nl))"

definition diagnostic :: "config \<Rightarrow> string" where
  "diagnostic cfg = ''[CSVWriter]: Could not open path '' @ [CHR 0x27] @ m_path cfg @ [CHR 0x27] @ ''!'' @ nl"

definition content :: "string option \<Rightarrow> string" where
  "content f = (case f of None \<Rightarrow> [] | Some d \<Rightarrow> d)"

text \<open>
  One step of the worker. \<^verbatim>\<open>out_.open(path_)\<close> opens for output, which truncates.
  A blocked worker (\<open>W_Waiting\<close>, or \<open>D_Lock\<close> while the mutex is taken) and a finished
  one do not move. The test \<^verbatim>\<open>!stop_\<close> and the call of \<^verbatim>\<open>wait\<close> are two steps
  (\<open>W_CheckStop\<close>, \<open>W_EnterWait\<close>), as are the test \<^verbatim>\<open>!q_.empty()\<close>, which \<^verbatim>\<open>dumpQ\<close> makes
  without the lock and which is read here in one piece, and the locking that follows.
  \<^verbatim>\<open>q_.front()\<close> on an empty queue is undefined.
\<close>

definition worker_step :: "config \<Rightarrow> state \<Rightarrow> state" where
  "worker_step cfg s =
     (case wpc s of
        W_Open \<Rightarrow>
          (if can_open cfg
           then s\<lparr>out_is_open := True, disk := Some [], opens := opens s + 1, wpc := W_IsOpen\<rparr>
           else s\<lparr>wpc := W_IsOpen\<rparr>)
      | W_IsOpen \<Rightarrow>
          (if \<not> out_is_open s then s\<lparr>cerr := cerr s @ diagnostic cfg, wpc := W_Returned\<rparr>
           else s\<lparr>wpc := W_Header\<rparr>)
      | W_Header \<Rightarrow>
          (if m_has_header cfg
           then (case header_text (m_header cfg) of
                   None \<Rightarrow> s\<lparr>wpc := W_Undefined\<rparr>
                 | Some h \<Rightarrow> s\<lparr>out_buffer := out_buffer s @ h, wpc := W_CheckStop\<rparr>)
           else s\<lparr>wpc := W_CheckStop\<rparr>)
      | W_CheckStop \<Rightarrow> (if m_stop s then s\<lparr>wpc := D_Empty True\<rparr> else s\<lparr>wpc := W_EnterWait\<rparr>)
      | W_EnterWait \<Rightarrow> s\<lparr>wpc := W_Waiting\<rparr>
      | W_Waiting \<Rightarrow> s
      | D_Empty fin \<Rightarrow>
          (if m_q s = [] then s\<lparr>wpc := (if fin then W_Flush else W_CheckStop)\<rparr>
           else s\<lparr>wpc := D_Lock fin\<rparr>)
      | D_Lock fin \<Rightarrow>
          (if m_q_mutex s = None then s\<lparr>m_q_mutex := Some T_worker, wpc := D_Pop fin\<rparr> else s)
      | D_Pop fin \<Rightarrow>
          (case m_q s of
             [] \<Rightarrow> s\<lparr>wpc := W_Undefined\<rparr>
           | f # q \<Rightarrow> s\<lparr>m_q := q, wpc := D_Unlock fin f\<rparr>)
      | D_Unlock fin f \<Rightarrow> s\<lparr>m_q_mutex := None, wpc := D_Out fin f\<rparr>
      | D_Out fin f \<Rightarrow> s\<lparr>out_buffer := out_buffer s @ f @ nl, wpc := D_Empty fin\<rparr>
      | W_Flush \<Rightarrow>
          s\<lparr>disk := Some (content (disk s) @ out_buffer s), out_buffer := [], wpc := W_Close\<rparr>
      | W_Close \<Rightarrow>
          (if out_is_open s
           then s\<lparr>disk := Some (content (disk s) @ out_buffer s), out_buffer := [],
                  out_is_open := False, closes := closes s + 1, wpc := W_Returned\<rparr>
           else s\<lparr>wpc := W_Returned\<rparr>)
      | W_Returned \<Rightarrow> s
      | W_Undefined \<Rightarrow> s)"

text \<open>
  One step of producer \<open>i\<close> in \<^verbatim>\<open>write\<close>: build the string, lock \<^verbatim>\<open>q_mutex_\<close> (only when it
  is free), push, notify, unlock on return.
\<close>

definition producer_step :: "nat \<Rightarrow> state \<Rightarrow> state" where
  "producer_step i s =
     (case ppc (producers s i) of
        P_Idle \<Rightarrow>
          (case todo (producers s i) of
             [] \<Rightarrow> s
           | r # rs \<Rightarrow> s\<lparr>producers := (producers s)(i := \<lparr>todo = rs, ppc = P_Built (build r)\<rparr>)\<rparr>)
      | P_Built l \<Rightarrow>
          (if m_q_mutex s = None
           then s\<lparr>m_q_mutex := Some (T_producer i),
                  producers := (producers s)(i := (producers s i)\<lparr>ppc := P_Locked l\<rparr>)\<rparr>
           else s)
      | P_Locked l \<Rightarrow>
          s\<lparr>m_q := m_q s @ [l], pushed := pushed s @ [(i, l)],
            producers := (producers s)(i := (producers s i)\<lparr>ppc := P_Pushed\<rparr>)\<rparr>
      | P_Pushed \<Rightarrow>
          (notify_one s)\<lparr>producers := (producers s)(i := (producers s i)\<lparr>ppc := P_Notified\<rparr>)\<rparr>
      | P_Notified \<Rightarrow>
          s\<lparr>m_q_mutex := None,
            producers := (producers s)(i := (producers s i)\<lparr>ppc := P_Idle\<rparr>)\<rparr>)"

text \<open>
  One step of the destructor. The owning thread is producer \<open>0\<close>: it destroys the object
  after its own \<^verbatim>\<open>write\<close> calls have returned. \<^verbatim>\<open>worker_thread_.joinable()\<close> holds, the
  thread was started by the constructor and nothing else joins or detaches it.
  \<^verbatim>\<open>join\<close> returns once the worker has returned from \<^verbatim>\<open>loop()\<close>.
\<close>

definition owner_step :: "state \<Rightarrow> state" where
  "owner_step s =
     (case opc s of
        O_Alive \<Rightarrow>
          (if todo (producers s 0) = [] \<and> ppc (producers s 0) = P_Idle
           then s\<lparr>m_stop := True, opc := O_StopSet\<rparr> else s)
      | O_StopSet \<Rightarrow> (notify_one s)\<lparr>opc := O_Notified\<rparr>
      | O_Notified \<Rightarrow> (if wpc s = W_Returned then s\<lparr>opc := O_Joined\<rparr> else s)
      | O_Joined \<Rightarrow> s)"

text \<open>
  \<^verbatim>\<open>condition_variable::wait\<close> may return without a notification. The stream may hand
  the first \<open>n\<close> characters of its buffer to the file whenever it is open.
\<close>

definition spurious_wakeup :: "state \<Rightarrow> state" where
  "spurious_wakeup s = (if wpc s = W_Waiting then s\<lparr>wpc := D_Empty False\<rparr> else s)"

definition overflow :: "nat \<Rightarrow> state \<Rightarrow> state" where
  "overflow n s =
     (if out_is_open s
      then s\<lparr>disk := Some (content (disk s) @ take n (out_buffer s)),
             out_buffer := drop n (out_buffer s)\<rparr>
      else s)"

datatype event = Worker | Producer nat | Owner | Spurious | Overflow nat

fun step :: "config \<Rightarrow> event \<Rightarrow> state \<Rightarrow> state" where
  "step cfg Worker s = worker_step cfg s"
| "step cfg (Producer i) s = producer_step i s"
| "step cfg Owner s = owner_step s"
| "step cfg Spurious s = spurious_wakeup s"
| "step cfg (Overflow n) s = overflow n s"

text \<open>A schedule is the list of events in the order they happen.\<close>

fun run :: "config \<Rightarrow> event list \<Rightarrow> state \<Rightarrow> state" where
  "run cfg [] s = s"
| "run cfg (e # es) s = run cfg es (step cfg e s)"

definition reachable :: "config \<Rightarrow> string option \<Rightarrow> (nat \<Rightarrow> row list) \<Rightarrow> state \<Rightarrow> bool" where
  "reachable cfg disk0 rows s = (\<exists>es. s = run cfg es (init disk0 rows))"

subsection \<open>Notions the statements use\<close>

text \<open>The text of some lines in a file: each line followed by a newline.\<close>

definition lines_text :: "string list \<Rightarrow> string" where
  "lines_text ls = concat (map (\<lambda>l. l @ nl) ls)"

text \<open>The line the worker has popped and not yet written (its local \<^verbatim>\<open>f\<close>).\<close>

fun inflight :: "worker_pc \<Rightarrow> string list" where
  "inflight (D_Unlock fin f) = [f]"
| "inflight (D_Out fin f) = [f]"
| "inflight pc = []"

text \<open>The positions at which a thread holds \<^verbatim>\<open>q_mutex_\<close>.\<close>

fun holds_p :: "producer_pc \<Rightarrow> bool" where
  "holds_p (P_Locked l) = True"
| "holds_p P_Pushed = True"
| "holds_p P_Notified = True"
| "holds_p pc = False"

fun holds_w :: "worker_pc \<Rightarrow> bool" where
  "holds_w (D_Pop fin) = True"
| "holds_w (D_Unlock fin f) = True"
| "holds_w pc = False"

text \<open>A producer whose \<^verbatim>\<open>write\<close> calls have all returned.\<close>

definition finished :: "producer \<Rightarrow> bool" where
  "finished p = (todo p = [] \<and> ppc p = P_Idle)"

text \<open>
  The lines a producer has still to push: the string of the call under way, if it is
  built and not yet pushed, then its remaining rows.
\<close>

fun unpushed_pc :: "producer_pc \<Rightarrow> string list" where
  "unpushed_pc (P_Built l) = [l]"
| "unpushed_pc (P_Locked l) = [l]"
| "unpushed_pc pc = []"

definition unpushed :: "producer \<Rightarrow> string list" where
  "unpushed p = unpushed_pc (ppc p) @ map build (todo p)"

text \<open>The pushes of producer \<open>i\<close> in the history of pushes.\<close>

definition lines_of :: "nat \<Rightarrow> (nat \<times> string) list \<Rightarrow> string list" where
  "lines_of i log = map snd (filter (\<lambda>e. fst e = i) log)"

text \<open>All the stream has received: what reached the file, then what is still buffered.\<close>

definition emitted :: "state \<Rightarrow> string" where
  "emitted s = content (disk s) @ out_buffer s"

text \<open>The header line of a configuration, and the part of it written at a position.\<close>

definition header_line :: "config \<Rightarrow> string" where
  "header_line cfg =
     (if m_has_header cfg then (case header_text (m_header cfg) of None \<Rightarrow> [] | Some h \<Rightarrow> h) else [])"

definition header_part :: "config \<Rightarrow> worker_pc \<Rightarrow> string" where
  "header_part cfg pc = (if pc = W_Open \<or> pc = W_IsOpen \<or> pc = W_Header then [] else header_line cfg)"

text \<open>
  The positions after the \<^verbatim>\<open>while (!stop_)\<close> loop, those after the last \<^verbatim>\<open>dumpQ\<close>, and
  those at which \<^verbatim>\<open>dumpQ\<close> has seen a line in the queue and not yet popped it.
\<close>

fun final_phase :: "worker_pc \<Rightarrow> bool" where
  "final_phase (D_Empty fin) = fin"
| "final_phase (D_Lock fin) = fin"
| "final_phase (D_Pop fin) = fin"
| "final_phase (D_Unlock fin f) = fin"
| "final_phase (D_Out fin f) = fin"
| "final_phase W_Flush = True"
| "final_phase W_Close = True"
| "final_phase W_Returned = True"
| "final_phase pc = False"

fun post_drain :: "worker_pc \<Rightarrow> bool" where
  "post_drain W_Flush = True"
| "post_drain W_Close = True"
| "post_drain W_Returned = True"
| "post_drain pc = False"

fun needs_item :: "worker_pc \<Rightarrow> bool" where
  "needs_item (D_Lock fin) = True"
| "needs_item (D_Pop fin) = True"
| "needs_item pc = False"

text \<open>
  The steps a producer has still to take: five for each \<^verbatim>\<open>write\<close> not yet begun, and
  those left of the call under way.
\<close>

fun remaining_pc :: "producer_pc \<Rightarrow> nat" where
  "remaining_pc P_Idle = 0"
| "remaining_pc (P_Built l) = 4"
| "remaining_pc (P_Locked l) = 3"
| "remaining_pc P_Pushed = 2"
| "remaining_pc P_Notified = 1"

definition remaining :: "producer \<Rightarrow> nat" where
  "remaining p = 5 * length (todo p) + remaining_pc (ppc p)"

subsection \<open>Invariants\<close>

text \<open>
  \<^verbatim>\<open>q_mutex_\<close> is held by exactly the thread that stands between its lock and its unlock,
  and the worker pops only from a queue in which it has seen a line.
\<close>

definition mutex_inv :: "state \<Rightarrow> bool" where
  "mutex_inv s =
     ((\<forall>i. holds_p (ppc (producers s i)) = (m_q_mutex s = Some (T_producer i)))
      \<and> holds_w (wpc s) = (m_q_mutex s = Some T_worker)
      \<and> (needs_item (wpc s) \<longrightarrow> m_q s \<noteq> []))"

text \<open>The stream and the file when \<^verbatim>\<open>open\<close> succeeds, and when it fails.\<close>

definition stream_ok :: "string option \<Rightarrow> state \<Rightarrow> bool" where
  "stream_ok disk0 s =
     ((wpc s = W_Open \<longrightarrow> \<not> out_is_open s \<and> out_buffer s = [] \<and> disk s = disk0
                               \<and> opens s = 0 \<and> closes s = 0)
      \<and> (wpc s \<noteq> W_Open \<longrightarrow> disk s \<noteq> None \<and> opens s = 1
                               \<and> out_is_open s = (wpc s \<noteq> W_Returned)
                               \<and> closes s = (if wpc s = W_Returned then 1 else 0))
      \<and> (wpc s = W_IsOpen \<or> wpc s = W_Header \<or> wpc s = W_Close \<or> wpc s = W_Returned
              \<longrightarrow> out_buffer s = [])
      \<and> (wpc s = W_IsOpen \<or> wpc s = W_Header \<longrightarrow> disk s = Some [])
      \<and> cerr s = [])"

definition stream_failed :: "config \<Rightarrow> string option \<Rightarrow> state \<Rightarrow> bool" where
  "stream_failed cfg disk0 s =
     (\<not> out_is_open s \<and> out_buffer s = [] \<and> disk s = disk0 \<and> opens s = 0 \<and> closes s = 0
      \<and> (wpc s = W_Open \<or> wpc s = W_IsOpen \<or> wpc s = W_Returned)
      \<and> cerr s = (if wpc s = W_Returned then diagnostic cfg else []))"

text \<open>
  The line in the worker's hands and the queue are the last pushes, in order; what the
  stream has received, followed by them, is the header and all the pushes.
\<close>

definition queue_inv :: "state \<Rightarrow> bool" where
  "queue_inv s = suffix (inflight (wpc s) @ m_q s) (map snd (pushed s))"

definition fifo_ok :: "config \<Rightarrow> state \<Rightarrow> bool" where
  "fifo_ok cfg s =
     ((wpc s = W_Open \<longrightarrow> m_q s = map snd (pushed s))
      \<and> (wpc s \<noteq> W_Open \<and> wpc s \<noteq> W_Undefined \<longrightarrow>
           emitted s @ lines_text (inflight (wpc s) @ m_q s)
           = header_part cfg (wpc s) @ lines_text (map snd (pushed s))))"

text \<open>With a failing \<^verbatim>\<open>open\<close> nothing is ever popped.\<close>

definition lost_inv :: "state \<Rightarrow> bool" where
  "lost_inv s = (m_q s = map snd (pushed s))"

text \<open>The pushes of each producer and what it has still to push are its rows.\<close>

definition log_inv :: "(nat \<Rightarrow> row list) \<Rightarrow> state \<Rightarrow> bool" where
  "log_inv rows s = (\<forall>i. lines_of i (pushed s) @ unpushed (producers s i) = map build (rows i))"

text \<open>
  \<^verbatim>\<open>stop_\<close> is set exactly from the first step of the destructor on, which comes after
  the owner's own \<^verbatim>\<open>write\<close> calls; \<^verbatim>\<open>join\<close> has returned only when the worker has.
\<close>

definition owner_inv :: "state \<Rightarrow> bool" where
  "owner_inv s =
     (m_stop s = (opc s \<noteq> O_Alive)
      \<and> (opc s \<noteq> O_Alive \<longrightarrow> finished (producers s 0))
      \<and> (opc s = O_Joined \<longrightarrow> wpc s = W_Returned))"

text \<open>After a successful open the worker leaves the loop only when \<^verbatim>\<open>stop_\<close> is set.\<close>

definition final_inv :: "state \<Rightarrow> bool" where
  "final_inv s = (final_phase (wpc s) \<longrightarrow> m_stop s)"

text \<open>
  Once \<^verbatim>\<open>stop_\<close> is set, with \<open>k\<close> pushes made before: after the last \<^verbatim>\<open>dumpQ\<close> the first
  \<open>k\<close> pushes have left the queue.
\<close>

definition drained_inv :: "nat \<Rightarrow> state \<Rightarrow> bool" where
  "drained_inv k s =
     (m_stop s \<and> k \<le> length (pushed s)
      \<and> (post_drain (wpc s) \<longrightarrow> k + length (m_q s) \<le> length (pushed s)))"

text \<open>A header of no names: the worker does not get past writing it.\<close>

definition header_inv :: "config \<Rightarrow> state \<Rightarrow> bool" where
  "header_inv cfg s =
     (m_has_header cfg \<and> m_header cfg = [] \<longrightarrow>
        wpc s = W_Open \<or> wpc s = W_IsOpen \<or> wpc s = W_Header \<or> wpc s = W_Undefined)"

text \<open>
  When only the owner writes: the other producers have nothing to do, and after the
  last \<^verbatim>\<open>dumpQ\<close> the queue stays empty.
\<close>

definition solo_inv :: "state \<Rightarrow> bool" where
  "solo_inv s = (\<forall>i. i \<noteq> 0 \<longrightarrow> finished (producers s i))"

definition quiet_inv :: "state \<Rightarrow> bool" where
  "quiet_inv s = (post_drain (wpc s) \<longrightarrow> m_q s = [])"

text \<open>
  The worker blocked in \<^verbatim>\<open>wait\<close>, the destructor blocked in \<^verbatim>\<open>join\<close>, and no producer left
  to notify.
\<close>

definition stuck :: "state \<Rightarrow> bool" where
  "stuck s = (wpc s = W_Waiting \<and> opc s = O_Notified \<and> (\<forall>i. finished (producers s i)))"

subsection \<open>Examples\<close>

text \<open>
  A logger with the header \<^verbatim>\<open>t,x,y\<close> whose file can be opened, the same with a path that
  cannot be opened, and a logger without a header.
\<close>

definition ex_cfg :: config where
  "ex_cfg = \<lparr>m_header = [''t'', ''x'', ''y''], m_has_header = True, m_path = ''P'', can_open = True\<rparr>"

definition ex_cfg_fail :: config where
  "ex_cfg_fail = \<lparr>m_header = [''t'', ''x'', ''y''], m_has_header = True,
     m_path = ''/no/such/dir/P'', can_open = False\<rparr>"

definition ex_cfg_plain :: config where
  "ex_cfg_plain = \<lparr>m_header = ['''', '''', ''''], m_has_header = False, m_path = ''P'',
     can_open = True\<rparr>"

text \<open>
  The owner writes \<open>(1, 2.0, "a")\<close> and \<open>(2, 3.0, "b")\<close> (the doubles \<open>1 \<cdot> 2\<^sup>1\<close> and
  \<open>3 \<cdot> 2\<^sup>0\<close>); in \<open>ex_rows2\<close> a second producer writes \<open>(7, -2.5, "c")\<close>; in \<open>ex_rows1\<close>
  the owner writes one row.
\<close>

definition ex_rows :: "nat \<Rightarrow> row list" where
  "ex_rows i =
     (if i = 0
      then [(Integer 1, [Floating (Double False 1 1), Text ''a'']),
            (Integer 2, [Floating (Double False 3 0), Text ''b''])]
      else [])"

definition ex_rows2 :: "nat \<Rightarrow> row list" where
  "ex_rows2 i =
     (if i = 0
      then [(Integer 1, [Floating (Double False 1 1), Text ''a'']),
            (Integer 2, [Floating (Double False 3 0), Text ''b''])]
      else if i = 1 then [(Integer 7, [Floating (Double True 5 (- 1)), Text ''c''])]
      else [])"

definition ex_rows1 :: "nat \<Rightarrow> row list" where
  "ex_rows1 i = (if i = 0 then [(Integer 1, [Floating (Double False 1 1), Text ''a''])] else [])"

text \<open>
  Both \<^verbatim>\<open>write\<close> calls and the first two steps of the destructor happen before the worker
  runs; the worker then runs to its end and \<^verbatim>\<open>join\<close> returns.
\<close>

definition ex_schedule :: "event list" where
  "ex_schedule =
     [Producer 0, Producer 0, Producer 0, Producer 0, Producer 0,
      Producer 0, Producer 0, Producer 0, Producer 0, Producer 0,
      Owner, Owner,
      Worker, Worker, Worker, Worker, Worker, Worker, Worker, Worker, Worker,
      Worker, Worker, Worker, Worker, Worker, Worker, Worker, Worker,
      Owner]"

text \<open>
  Two producers and a waiting worker: the worker waits, is woken by the owner's first
  row, finds the mutex taken, writes the rows as they come; \<open>ex_midway\<close> stops while the
  worker holds the second line, \<open>ex_out\<close> one step later.
\<close>

definition ex_midway :: "event list" where
  "ex_midway =
     [Worker, Worker, Worker, Worker, Worker,
      Producer 0, Producer 0, Producer 0, Producer 0, Worker, Worker, Producer 0,
      Producer 1, Producer 1, Worker, Producer 1, Producer 1, Producer 1,
      Worker, Worker, Worker, Worker, Overflow 3,
      Producer 0, Producer 0, Producer 0, Producer 0, Producer 0,
      Worker, Worker, Worker]"

definition ex_out :: "event list" where
  "ex_out = ex_midway @ [Worker]"

text \<open>The owner about to push, and about to notify, while the worker waits.\<close>

definition ex_locked :: "event list" where
  "ex_locked = [Worker, Worker, Worker, Worker, Worker, Producer 0, Producer 0]"

definition ex_pushed :: "event list" where
  "ex_pushed = [Worker, Worker, Worker, Worker, Worker, Producer 0, Producer 0, Producer 0]"

text \<open>
  In \<open>ex_lost_row\<close> the owner's \<^verbatim>\<open>write\<close> returns before the worker has opened the file;
  the worker then runs until it waits. In \<open>ex_lost_stop\<close> the worker has tested \<^verbatim>\<open>stop_\<close>
  and not yet called \<^verbatim>\<open>wait\<close> when the owner's \<^verbatim>\<open>write\<close> runs and the destructor sets
  \<^verbatim>\<open>stop_\<close> and notifies; then it calls \<^verbatim>\<open>wait\<close>. \<open>ex_lost_push\<close> is the part of
  \<open>ex_lost_stop\<close> before the destructor starts.
\<close>

definition ex_lost_row :: "event list" where
  "ex_lost_row =
     [Producer 0, Producer 0, Producer 0, Producer 0, Producer 0,
      Worker, Worker, Worker, Worker, Worker]"

definition ex_lost_stop :: "event list" where
  "ex_lost_stop =
     [Worker, Worker, Worker, Worker,
      Producer 0, Producer 0, Producer 0, Producer 0, Producer 0,
      Owner, Owner,
      Worker]"

definition ex_lost_push :: "event list" where
  "ex_lost_push =
     [Worker, Worker, Worker, Worker,
      Producer 0, Producer 0, Producer 0, Producer 0, Producer 0]"

text \<open>The open fails while the owner is in its first \<^verbatim>\<open>write\<close>.\<close>

definition ex_fail_schedule :: "event list" where
  "ex_fail_schedule = [Worker, Producer 0, Producer 0, Worker, Producer 0]"

text \<open>
  The schedule without a race, for an owner with \<open>n\<close> rows: all its \<^verbatim>\<open>write\<close> calls, the
  first two steps of the destructor, then the worker from its start to its return
  (four steps to the last \<^verbatim>\<open>dumpQ\<close>, five for each line, three to return), then
  \<^verbatim>\<open>join\<close>.
\<close>

definition calm_schedule :: "nat \<Rightarrow> event list" where
  "calm_schedule n =
     replicate (5 * n) (Producer 0) @ [Owner, Owner] @ [Worker, Worker, Worker, Worker]
     @ replicate (5 * n) Worker @ [Worker, Worker, Worker] @ [Owner]"

text \<open>
  The shutdown of a worker that waits with \<open>n\<close> lines in the queue: the first two steps
  of the destructor (the second wakes the worker), five steps of the worker for each
  line, five to find the queue empty twice, flush, close and return, then \<^verbatim>\<open>join\<close>.
\<close>

definition wake_schedule :: "nat \<Rightarrow> event list" where
  "wake_schedule n =
     [Owner, Owner] @ replicate (5 * n) Worker @ [Worker, Worker, Worker, Worker, Worker]
     @ [Owner]"

text \<open>
  \<^verbatim>\<open>buffered_vector<int> a(1, 2);\<close> is \<open>ex_made\<close> (the vector and the store after the
  constructor), \<^verbatim>\<open>buffered_vector<int> b(a);\<close> is \<open>ex_copied\<close>, and
  \<^verbatim>\<open>a.clear(); a.push_back(7);\<close> after the copy is \<open>ex_rewritten\<close>.
\<close>

definition ex_made :: "buffered_vector \<times> int memory" where
  "ex_made = projr (buffered_vector3 True 1 2 0 no_memory)"

definition ex_copied :: "buffered_vector \<times> int memory" where
  "ex_copied = copy_bv (fst ex_made) (snd ex_made)"

definition ex_rewritten :: "buffered_vector \<times> int memory" where
  "ex_rewritten = projr (push_back 7 (clear (fst ex_made)) (snd ex_copied))"

section \<open>Properties of buffered\_vector\<close>

lemmas bv_defs = no_memory_def alloc_def release_def buffer_def ptr_read_def ptr_write_def
  vector_resize_def buffered_vector0_def buffered_vector3_def copy_bv_def destroy_def
  capacity_def size_bv_def begin_at_def subscript_def at_bv_def resize_def resize2_def
  push_back_def emplace_back_def clear_def

text \<open>
  \<^verbatim>\<open>at(i)\<close> throws whenever \<open>i\<close> is not below \<^verbatim>\<open>size()\<close>, whatever the capacity and the
  pointer are. In a sound vector it returns element \<open>i\<close> of the vector's own buffer for
  every \<open>i\<close> below \<^verbatim>\<open>size()\<close>. \<^verbatim>\<open>operator[]\<close> never looks at \<^verbatim>\<open>size()\<close>; in a sound vector it
  returns element \<open>i\<close> of the buffer below the capacity and is undefined from there on.
\<close>

lemma at_throws:
  "size_bv v \<le> i \<Longrightarrow> at_bv m v i = Inl (Runtime_error ''Index out of bounds!'')"
  by (simp add: at_bv_def size_bv_def)

lemma at_sound:
  "sound m v \<Longrightarrow> i < size_bv v \<Longrightarrow>
   at_bv m v i = Inr (buffer m (m_data v) ! i) \<and> at_bv m v i = begin_at m v i"
  by (auto simp: sound_def at_bv_def size_bv_def begin_at_def ptr_read_def buffer_def
      split: option.splits)

lemma subscript_ignores_size: "subscript m (v\<lparr>m_size := n\<rparr>) i = subscript m v i"
  by (simp add: subscript_def)

lemma subscript_sound:
  "sound m v \<Longrightarrow>
   subscript m v i
   = (if i < capacity m v then Inr (buffer m (m_data v) ! i) else Inl Undefined_behaviour)"
  by (auto simp: sound_def subscript_def capacity_def ptr_read_def buffer_def
      split: option.splits)

text \<open>Which operations make and keep a vector sound.\<close>

lemma push_back_throws_iff:
  "(\<exists>e. push_back x v m = Inl (Runtime_error e)) = (size_bv v = capacity m v)"
  by (auto simp: push_back_def size_bv_def capacity_def ptr_write_def split: option.splits)

lemma push_back_sound:
  assumes "sound m v" and "push_back x v m = Inr (v', m')"
  shows "sound m' v' \<and> size_bv v' = size_bv v + 1 \<and> capacity m' v' = capacity m v
       \<and> at_bv m' v' (size_bv v) = Inr x"
  using assms
  by (auto simp: sound_def push_back_def size_bv_def capacity_def ptr_write_def at_bv_def
      ptr_read_def buffer_def split: if_splits option.splits)

lemma push_back_overrun:
  "m_data_ptr v = m_data v \<Longrightarrow> capacity m v < size_bv v \<Longrightarrow>
   push_back x v m = Inl Undefined_behaviour"
  by (auto simp: push_back_def size_bv_def capacity_def ptr_write_def buffer_def
      split: option.splits)

lemma emplace_back_push_back: "emplace_back x v m = push_back x v m"
  by (simp add: emplace_back_def push_back_def)

lemma resize_sound:
  "resize n x v m = (v', m') \<Longrightarrow> size_bv v' = 0 \<and> capacity m' v' = n \<and> sound m' v'"
  by (auto simp: resize_def vector_resize_def alloc_def release_def size_bv_def capacity_def
      sound_def buffer_def split: if_splits option.splits prod.splits)

lemma clear_size:
  "size_bv (clear v) = 0 \<and> capacity m (clear v) = capacity m v
   \<and> (sound m v \<longrightarrow> sound m (clear v))"
  by (simp add: clear_def size_bv_def capacity_def sound_def)

lemma resize2_size:
  "resize2 n cap x v m = (v', m') \<Longrightarrow>
   size_bv v' = n \<and> capacity m' v' = cap \<and> sound m' v' = (n \<le> cap)"
  by (auto simp: resize2_def vector_resize_def alloc_def release_def size_bv_def capacity_def
      sound_def buffer_def split: if_splits option.splits prod.splits)

lemma buffered_vector3_checked:
  "buffered_vector3 True n cap x m = Inr (v, m') \<Longrightarrow> sound m' v"
  by (auto simp: buffered_vector3_def alloc_def sound_def buffer_def split: if_splits)

text \<open>
  The copy of a sound vector with a buffer at \<open>a\<close> has the elements of the source in a
  buffer of its own, and a pointer that still aims at \<open>a\<close>.
\<close>

lemma copy_aliases:
  "sound m v \<Longrightarrow> m_data v = Some a \<Longrightarrow> copy_bv v m = (w, m') \<Longrightarrow>
   m_data_ptr w = Some a \<and> m_data w = Some (fresh m)
   \<and> buffer m' (m_data w) = buffer m (m_data v)"
  by (auto simp: copy_bv_def alloc_def sound_def buffer_def split: option.splits)

text \<open>
  C9: the claim is that \<^verbatim>\<open>at(i)\<close> is checked against \<^verbatim>\<open>size()\<close>, so that it either throws
  or returns element \<open>i\<close> of the vector. The check against \<^verbatim>\<open>size()\<close> is there (lemma
  \<open>at_throws\<close>), and \<^verbatim>\<open>operator[]\<close> has none (lemma \<open>subscript_ignores_size\<close>); but an index
  that passes the check is read through \<^verbatim>\<open>data_ptr_\<close> with no further test, and the code
  keeps neither \<^verbatim>\<open>size() <= capacity()\<close> nor the pointer on the vector's own buffer.
  After \<^verbatim>\<open>resize(5, 3)\<close> on a default-constructed vector, \<^verbatim>\<open>at(4)\<close> passes the check and
  reads past the three allocated elements. After \<^verbatim>\<open>buffered_vector<int> a(1, 2);
  buffered_vector<int> b(a); a.clear(); a.push_back(7);\<close> the copy \<open>b\<close> has size 1 and its
  own element 0 is 0, but \<^verbatim>\<open>b.at(0)\<close> returns 7, the element of \<open>a\<close>; once \<open>a\<close> is destroyed,
  \<^verbatim>\<open>b.at(0)\<close> reads freed memory.
\<close>

theorem C9_at_reads_outside_the_vector:
  "4 < size_bv (fst (resize2 5 3 x buffered_vector0 no_memory))
   \<and> at_bv (snd (resize2 5 3 x buffered_vector0 no_memory))
        (fst (resize2 5 3 x buffered_vector0 no_memory)) 4 = Inl Undefined_behaviour
   \<and> buffered_vector3 True 1 2 0 no_memory = Inr ex_made
   \<and> push_back 7 (clear (fst ex_made)) (snd ex_copied) = Inr ex_rewritten
   \<and> 0 < size_bv (fst ex_copied)
   \<and> begin_at (snd ex_rewritten) (fst ex_copied) 0 = Inr 0
   \<and> at_bv (snd ex_rewritten) (fst ex_copied) 0 = Inr 7
   \<and> at_bv (destroy (fst ex_made) (snd ex_copied)) (fst ex_copied) 0
       = Inl Undefined_behaviour"
  by (simp add: ex_made_def ex_copied_def ex_rewritten_def bv_defs)

text \<open>
  C10: the claim is that every operation keeps \<^verbatim>\<open>size() <= capacity()\<close>. The constructors
  assert it, \<^verbatim>\<open>push_back\<close>, \<^verbatim>\<open>emplace_back\<close>, the one-argument \<^verbatim>\<open>resize\<close> and \<^verbatim>\<open>clear\<close> keep
  it (lemmas above), but \<^verbatim>\<open>resize(size, capacity)\<close> stores both arguments unchecked:
  on a default-constructed vector \<^verbatim>\<open>resize(5, 3)\<close> leaves size 5 and capacity 3, and the
  next \<^verbatim>\<open>push_back\<close> writes past the buffer instead of throwing. The constructor with the
  same arguments stops at its assertion, in a build that keeps assertions.
\<close>

theorem C10_resize2_exceeds_capacity:
  "size_bv (fst (resize2 5 3 x buffered_vector0 no_memory)) = 5
   \<and> capacity (snd (resize2 5 3 x buffered_vector0 no_memory))
        (fst (resize2 5 3 x buffered_vector0 no_memory)) = 3
   \<and> \<not> size_bv (fst (resize2 5 3 x buffered_vector0 no_memory))
        \<le> capacity (snd (resize2 5 3 x buffered_vector0 no_memory))
             (fst (resize2 5 3 x buffered_vector0 no_memory))
   \<and> push_back y (fst (resize2 5 3 x buffered_vector0 no_memory))
        (snd (resize2 5 3 x buffered_vector0 no_memory)) = Inl Undefined_behaviour
   \<and> at_bv (snd (resize2 5 3 x buffered_vector0 no_memory))
        (fst (resize2 5 3 x buffered_vector0 no_memory)) 4 = Inl Undefined_behaviour
   \<and> buffered_vector3 True 5 3 x no_memory = Inl Assertion_failed"
  by (simp add: bv_defs)

section \<open>Invariants of the CSVWriter\<close>

subsection \<open>Evaluating the model on examples\<close>

lemma digits_less: "n < 10 \<Longrightarrow> digits n = [''0123456789'' ! n]"
  by (simp add: digits.simps)

lemma digits_more: "\<not> n < 10 \<Longrightarrow> digits n = digits (n div 10) @ [''0123456789'' ! (n mod 10)]"
  by (subst digits.simps) simp

lemmas eval_defs = init_def worker_step_def producer_step_def owner_step_def notify_one_def
  spurious_wakeup_def overflow_def header_text_def content_def build_def to_string_int_def
  to_string_double_def fixed6_def round_half_even_def digits_less digits_more nl_def

subsection \<open>Invariance along a schedule\<close>

lemma lines_text_simps [simp]:
  "lines_text [] = []"
  "lines_text (l # ls) = l @ nl @ lines_text ls"
  "lines_text (xs @ ys) = lines_text xs @ lines_text ys"
  by (simp_all add: lines_text_def)

lemma run_invariant:
  assumes "\<And>s e. P s \<Longrightarrow> P (step cfg e s)" and "P s"
  shows "P (run cfg es s)"
  using assms(2) by (induction es arbitrary: s) (auto intro: assms(1))

lemma reachable_invariant:
  assumes "reachable cfg disk0 rows s" and "P (init disk0 rows)"
    and "\<And>s e. P s \<Longrightarrow> P (step cfg e s)"
  shows "P s"
  using assms unfolding reachable_def by (auto intro: run_invariant)

subsection \<open>Every step keeps every invariant\<close>

lemma mutex_inv_worker: "mutex_inv s \<Longrightarrow> mutex_inv (worker_step cfg s)"
  unfolding mutex_inv_def worker_step_def
  by (cases "wpc s") (auto split: list.splits option.splits)

lemma mutex_inv_producer:
  assumes "mutex_inv s"
  shows "mutex_inv (producer_step i s)"
proof -
  have P: "holds_p (ppc (producers s j)) = (m_q_mutex s = Some (T_producer j))" for j
    using assms by (simp add: mutex_inv_def)
  have W: "holds_w (wpc s) = (m_q_mutex s = Some T_worker)"
    and N: "needs_item (wpc s) \<longrightarrow> m_q s \<noteq> []"
    using assms by (simp_all add: mutex_inv_def)
  show ?thesis
  proof (cases "ppc (producers s i)")
    case P_Idle
    then show ?thesis
      using P[of i] W N
      by (cases "todo (producers s i)") (simp_all add: mutex_inv_def producer_step_def P assms)
  next
    case (P_Built l)
    then show ?thesis
      using P[of i] W N
      by (cases "m_q_mutex s = None") (simp_all add: mutex_inv_def producer_step_def P assms)
  next
    case (P_Locked l)
    then show ?thesis
      using P[of i] W N by (simp add: mutex_inv_def producer_step_def P)
  next
    case P_Pushed
    then show ?thesis
      using P[of i] W N by (simp add: mutex_inv_def producer_step_def notify_one_def P)
  next
    case P_Notified
    then show ?thesis
      using P[of i] W N by (auto simp add: mutex_inv_def producer_step_def P)
  qed
qed

lemma mutex_inv_owner: "mutex_inv s \<Longrightarrow> mutex_inv (owner_step s)"
  unfolding mutex_inv_def owner_step_def notify_one_def
  by (cases "opc s") auto
lemma mutex_inv_rest: "mutex_inv s \<Longrightarrow> mutex_inv (spurious_wakeup s) \<and> mutex_inv (overflow n s)"
  unfolding mutex_inv_def spurious_wakeup_def overflow_def
  by auto

lemma mutex_inv_step: "mutex_inv s \<Longrightarrow> mutex_inv (step cfg e s)"
  by (cases e) (simp_all add: mutex_inv_worker mutex_inv_producer mutex_inv_owner mutex_inv_rest)

lemma stream_ok_worker: "can_open cfg \<Longrightarrow> stream_ok disk0 s \<Longrightarrow> stream_ok disk0 (worker_step cfg s)"
  unfolding stream_ok_def worker_step_def
  by (cases "wpc s") (auto simp: content_def split: list.splits option.splits)
lemma stream_failed_worker: "\<not> can_open cfg \<Longrightarrow> stream_failed cfg disk0 s \<Longrightarrow> stream_failed cfg disk0 (worker_step cfg s)"
  unfolding stream_failed_def worker_step_def
  by (cases "wpc s") (auto simp: content_def split: list.splits option.splits)

lemma stream_ok_notify: "stream_ok disk0 s \<Longrightarrow> stream_ok disk0 (notify_one s)"
  unfolding stream_ok_def notify_one_def by auto
lemma stream_ok_producer: "stream_ok disk0 s \<Longrightarrow> stream_ok disk0 (producer_step i s)"
proof (cases "ppc (producers s i)")
  case P_Pushed
  assume "stream_ok disk0 s"
  then have "stream_ok disk0 (notify_one s)" by (rule stream_ok_notify)
  then show ?thesis using P_Pushed by (simp add: producer_step_def stream_ok_def)
qed (simp_all add: producer_step_def stream_ok_def split: list.splits)
lemma stream_failed_notify: "stream_failed cfg disk0 s \<Longrightarrow> stream_failed cfg disk0 (notify_one s)"
  unfolding stream_failed_def notify_one_def by auto
lemma stream_failed_producer: "stream_failed cfg disk0 s \<Longrightarrow> stream_failed cfg disk0 (producer_step i s)"
proof (cases "ppc (producers s i)")
  case P_Pushed
  assume "stream_failed cfg disk0 s"
  then have "stream_failed cfg disk0 (notify_one s)" by (rule stream_failed_notify)
  then show ?thesis using P_Pushed by (simp add: producer_step_def stream_failed_def)
qed (auto simp add: producer_step_def stream_failed_def split: list.splits)

lemma stream_ok_owner: "stream_ok disk0 s \<Longrightarrow> stream_ok disk0 (owner_step s)"
  unfolding stream_ok_def owner_step_def notify_one_def
  by (cases "opc s") auto
lemma stream_ok_rest: "stream_ok disk0 s \<Longrightarrow> stream_ok disk0 (spurious_wakeup s) \<and> stream_ok disk0 (overflow n s)"
  unfolding stream_ok_def spurious_wakeup_def overflow_def
  by (auto simp: content_def)
lemma stream_failed_owner: "stream_failed cfg disk0 s \<Longrightarrow> stream_failed cfg disk0 (owner_step s)"
  unfolding stream_failed_def owner_step_def notify_one_def
  by (cases "opc s") auto
lemma stream_failed_rest: "stream_failed cfg disk0 s \<Longrightarrow> stream_failed cfg disk0 (spurious_wakeup s) \<and> stream_failed cfg disk0 (overflow n s)"
  unfolding stream_failed_def spurious_wakeup_def overflow_def
  by (auto simp: content_def)

lemma stream_ok_step: "can_open cfg \<Longrightarrow> stream_ok disk0 s \<Longrightarrow> stream_ok disk0 (step cfg e s)"
  by (cases e) (simp_all add: stream_ok_worker stream_ok_producer stream_ok_owner stream_ok_rest)

lemma stream_failed_step:
  "\<not> can_open cfg \<Longrightarrow> stream_failed cfg disk0 s \<Longrightarrow> stream_failed cfg disk0 (step cfg e s)"
  by (cases e)
    (simp_all add: stream_failed_worker stream_failed_producer stream_failed_owner stream_failed_rest)

lemma stream_ok_init: "stream_ok disk0 (init disk0 rows)"
  by (simp add: stream_ok_def init_def)

lemma stream_failed_init: "stream_failed cfg disk0 (init disk0 rows)"
  by (simp add: stream_failed_def init_def)

lemma mutex_inv_init: "mutex_inv (init disk0 rows)"
  by (simp add: mutex_inv_def init_def)

lemma queue_inv_worker: "queue_inv s \<Longrightarrow> queue_inv (worker_step cfg s)"
  unfolding queue_inv_def worker_step_def
  by (cases "wpc s") (auto simp: suffix_def split: list.splits option.splits)
lemma queue_inv_producer: "queue_inv s \<Longrightarrow> queue_inv (producer_step i s)"
  unfolding queue_inv_def producer_step_def notify_one_def
  by (cases "ppc (producers s i)") (auto simp: suffix_def split: list.splits)
lemma queue_inv_owner: "queue_inv s \<Longrightarrow> queue_inv (owner_step s)"
  unfolding queue_inv_def owner_step_def notify_one_def
  by (cases "opc s") auto
lemma queue_inv_rest: "queue_inv s \<Longrightarrow> queue_inv (spurious_wakeup s) \<and> queue_inv (overflow n s)"
  unfolding queue_inv_def spurious_wakeup_def overflow_def
  by auto
lemma fifo_ok_worker:
  "can_open cfg \<Longrightarrow> stream_ok disk0 s \<Longrightarrow> fifo_ok cfg s \<Longrightarrow> fifo_ok cfg (worker_step cfg s)"
  unfolding fifo_ok_def worker_step_def stream_ok_def emitted_def header_part_def header_line_def
  by (cases "wpc s") (auto simp: content_def split: list.splits option.splits)

lemma fifo_ok_producer: "fifo_ok cfg s \<Longrightarrow> fifo_ok cfg (producer_step i s)"
  unfolding fifo_ok_def producer_step_def notify_one_def emitted_def header_part_def
  by (cases "ppc (producers s i)") (auto split: list.splits)
lemma fifo_ok_owner: "fifo_ok cfg s \<Longrightarrow> fifo_ok cfg (owner_step s)"
  unfolding fifo_ok_def owner_step_def notify_one_def emitted_def header_part_def
  by (cases "opc s") auto
lemma overflow_fields [simp]:
  "wpc (overflow n s) = wpc s" "m_q (overflow n s) = m_q s" "pushed (overflow n s) = pushed s"
  "emitted (overflow n s) = emitted s" "producers (overflow n s) = producers s"
  "opc (overflow n s) = opc s" "m_stop (overflow n s) = m_stop s"
  "m_q_mutex (overflow n s) = m_q_mutex s"
  by (simp_all add: overflow_def emitted_def content_def)
lemma fifo_ok_rest: "fifo_ok cfg s \<Longrightarrow> fifo_ok cfg (spurious_wakeup s) \<and> fifo_ok cfg (overflow n s)"
proof
  show "fifo_ok cfg s \<Longrightarrow> fifo_ok cfg (spurious_wakeup s)"
    unfolding fifo_ok_def spurious_wakeup_def emitted_def header_part_def by auto
  show "fifo_ok cfg s \<Longrightarrow> fifo_ok cfg (overflow n s)"
    unfolding fifo_ok_def by simp
qed
lemma owner_inv_worker: "owner_inv s \<Longrightarrow> owner_inv (worker_step cfg s)"
  unfolding owner_inv_def worker_step_def
  by (cases "wpc s") (auto split: list.splits option.splits)
lemma owner_inv_producer: "owner_inv s \<Longrightarrow> owner_inv (producer_step i s)"
  unfolding owner_inv_def producer_step_def notify_one_def finished_def
  by (cases "ppc (producers s i)") (auto split: list.splits)
lemma owner_inv_owner: "owner_inv s \<Longrightarrow> owner_inv (owner_step s)"
  unfolding owner_inv_def owner_step_def notify_one_def finished_def
  by (cases "opc s") auto
lemma owner_inv_rest: "owner_inv s \<Longrightarrow> owner_inv (spurious_wakeup s) \<and> owner_inv (overflow n s)"
  unfolding owner_inv_def spurious_wakeup_def
  by auto

lemma lines_of_simps [simp]:
  "lines_of i [] = []"
  "lines_of i (log @ [(j, l)]) = (if j = i then lines_of i log @ [l] else lines_of i log)"
  by (simp_all add: lines_of_def)
lemma producer_step_other:
  "j \<noteq> i \<Longrightarrow> producers (producer_step i s) j = producers s j"
  "j \<noteq> i \<Longrightarrow> lines_of j (pushed (producer_step i s)) = lines_of j (pushed s)"
  unfolding producer_step_def notify_one_def
  by (cases "ppc (producers s i)"; simp split: list.splits)+
lemma producer_step_own:
  "lines_of i (pushed (producer_step i s)) @ unpushed (producers (producer_step i s) i)
   = lines_of i (pushed s) @ unpushed (producers s i)"
  unfolding producer_step_def notify_one_def unpushed_def
  by (cases "ppc (producers s i)"; simp split: list.splits)
lemma log_inv_producer: "log_inv rows s \<Longrightarrow> log_inv rows (producer_step i s)"
  unfolding log_inv_def
  by (metis producer_step_other producer_step_own)
lemma log_inv_worker: "log_inv rows s \<Longrightarrow> log_inv rows (worker_step cfg s)"
  unfolding log_inv_def worker_step_def
  by (cases "wpc s") (simp_all split: list.splits option.splits)
lemma log_inv_owner: "log_inv rows s \<Longrightarrow> log_inv rows (owner_step s)"
  unfolding log_inv_def owner_step_def notify_one_def
  by (cases "opc s") simp_all
lemma log_inv_rest: "log_inv rows s \<Longrightarrow> log_inv rows (spurious_wakeup s) \<and> log_inv rows (overflow n s)"
  unfolding log_inv_def spurious_wakeup_def overflow_def
  by simp

lemma final_inv_worker:
  "can_open cfg \<Longrightarrow> stream_ok disk0 s \<Longrightarrow> final_inv s \<Longrightarrow> final_inv (worker_step cfg s)"
  unfolding final_inv_def worker_step_def stream_ok_def
  by (cases "wpc s") (auto split: list.splits option.splits)
lemma final_inv_producer: "final_inv s \<Longrightarrow> final_inv (producer_step i s)"
  unfolding final_inv_def producer_step_def notify_one_def
  by (cases "ppc (producers s i)") (auto split: list.splits)
lemma final_inv_owner: "final_inv s \<Longrightarrow> final_inv (owner_step s)"
  unfolding final_inv_def owner_step_def notify_one_def
  by (cases "opc s") auto
lemma final_inv_rest: "final_inv s \<Longrightarrow> final_inv (spurious_wakeup s) \<and> final_inv (overflow n s)"
  unfolding final_inv_def spurious_wakeup_def overflow_def
  by auto
lemma drained_inv_worker:
  "can_open cfg \<Longrightarrow> stream_ok disk0 s \<Longrightarrow> drained_inv k s \<Longrightarrow> drained_inv k (worker_step cfg s)"
  unfolding drained_inv_def worker_step_def stream_ok_def
  by (cases "wpc s") (auto split: list.splits option.splits)
lemma drained_inv_producer: "drained_inv k s \<Longrightarrow> drained_inv k (producer_step i s)"
  unfolding drained_inv_def producer_step_def notify_one_def
  by (cases "ppc (producers s i)") (auto split: list.splits)
lemma drained_inv_owner: "drained_inv k s \<Longrightarrow> drained_inv k (owner_step s)"
  unfolding drained_inv_def owner_step_def notify_one_def
  by (cases "opc s") auto
lemma drained_inv_rest: "drained_inv k s \<Longrightarrow> drained_inv k (spurious_wakeup s) \<and> drained_inv k (overflow n s)"
  unfolding drained_inv_def spurious_wakeup_def overflow_def
  by auto

subsection \<open>The invariants hold in every reachable state\<close>

lemma reachable_init: "reachable cfg disk0 rows (init disk0 rows)"
  unfolding reachable_def by (rule exI[of _ "[]"]) simp

lemma run_append: "run cfg (es @ fs) s = run cfg fs (run cfg es s)"
  by (induction es arbitrary: s) simp_all

lemma reachable_run: "reachable cfg disk0 rows s \<Longrightarrow> reachable cfg disk0 rows (run cfg es s)"
  unfolding reachable_def by (metis run_append)

lemma reachable_step: "reachable cfg disk0 rows s \<Longrightarrow> reachable cfg disk0 rows (step cfg e s)"
  using reachable_run[of cfg disk0 rows s "[e]"] by simp

lemma queue_inv_step: "queue_inv s \<Longrightarrow> queue_inv (step cfg e s)"
  by (cases e) (simp_all add: queue_inv_worker queue_inv_producer queue_inv_owner queue_inv_rest)

lemma fifo_ok_step:
  "can_open cfg \<Longrightarrow> stream_ok disk0 s \<Longrightarrow> fifo_ok cfg s \<Longrightarrow> fifo_ok cfg (step cfg e s)"
  by (cases e) (simp_all add: fifo_ok_worker fifo_ok_producer fifo_ok_owner fifo_ok_rest)

lemma log_inv_step: "log_inv rows s \<Longrightarrow> log_inv rows (step cfg e s)"
  by (cases e) (simp_all add: log_inv_worker log_inv_producer log_inv_owner log_inv_rest)

lemma owner_inv_step: "owner_inv s \<Longrightarrow> owner_inv (step cfg e s)"
  by (cases e) (simp_all add: owner_inv_worker owner_inv_producer owner_inv_owner owner_inv_rest)

lemma final_inv_step:
  "can_open cfg \<Longrightarrow> stream_ok disk0 s \<Longrightarrow> final_inv s \<Longrightarrow> final_inv (step cfg e s)"
  by (cases e) (simp_all add: final_inv_worker final_inv_producer final_inv_owner final_inv_rest)

lemma drained_inv_step:
  "can_open cfg \<Longrightarrow> stream_ok disk0 s \<Longrightarrow> drained_inv k s \<Longrightarrow> drained_inv k (step cfg e s)"
  by (cases e)
    (simp_all add: drained_inv_worker drained_inv_producer drained_inv_owner drained_inv_rest)

lemma queue_inv_init: "queue_inv (init disk0 rows)"
  by (simp add: queue_inv_def init_def)

lemma fifo_ok_init: "fifo_ok cfg (init disk0 rows)"
  by (simp add: fifo_ok_def init_def)

lemma log_inv_init: "log_inv rows (init disk0 rows)"
  by (simp add: log_inv_def init_def unpushed_def)

lemma owner_inv_init: "owner_inv (init disk0 rows)"
  by (simp add: owner_inv_def init_def)

lemma final_inv_init: "final_inv (init disk0 rows)"
  by (simp add: final_inv_def init_def)

lemma reachable_mutex_inv: "reachable cfg disk0 rows s \<Longrightarrow> mutex_inv s"
  by (erule reachable_invariant) (simp_all add: mutex_inv_init mutex_inv_step)

lemma reachable_queue_inv: "reachable cfg disk0 rows s \<Longrightarrow> queue_inv s"
  by (erule reachable_invariant) (simp_all add: queue_inv_init queue_inv_step)

lemma reachable_log_inv: "reachable cfg disk0 rows s \<Longrightarrow> log_inv rows s"
  by (erule reachable_invariant) (simp_all add: log_inv_init log_inv_step)

lemma reachable_owner_inv: "reachable cfg disk0 rows s \<Longrightarrow> owner_inv s"
  by (erule reachable_invariant) (simp_all add: owner_inv_init owner_inv_step)

lemma reachable_stream_ok: "can_open cfg \<Longrightarrow> reachable cfg disk0 rows s \<Longrightarrow> stream_ok disk0 s"
  by (erule reachable_invariant) (simp_all add: stream_ok_init stream_ok_step)

lemma reachable_stream_failed:
  "\<not> can_open cfg \<Longrightarrow> reachable cfg disk0 rows s \<Longrightarrow> stream_failed cfg disk0 s"
  by (erule reachable_invariant) (simp_all add: stream_failed_init stream_failed_step)

lemma reachable_fifo_ok:
  assumes "can_open cfg" and "reachable cfg disk0 rows s"
  shows "fifo_ok cfg s"
proof -
  have "stream_ok disk0 s \<and> fifo_ok cfg s"
    using assms(2)
    by (rule reachable_invariant)
      (auto simp: stream_ok_init fifo_ok_init assms(1) intro: stream_ok_step fifo_ok_step)
  then show ?thesis ..
qed

lemma reachable_final_inv:
  assumes "can_open cfg" and "reachable cfg disk0 rows s"
  shows "final_inv s"
proof -
  have "stream_ok disk0 s \<and> final_inv s"
    using assms(2)
    by (rule reachable_invariant)
      (auto simp: stream_ok_init final_inv_init assms(1) intro: stream_ok_step final_inv_step)
  then show ?thesis ..
qed

lemma drained_inv_run:
  assumes "can_open cfg" and "stream_ok disk0 s" and "drained_inv k s"
  shows "drained_inv k (run cfg es s)"
proof -
  have "stream_ok disk0 (run cfg es s) \<and> drained_inv k (run cfg es s)"
    by (rule run_invariant[where P = "\<lambda>s. stream_ok disk0 s \<and> drained_inv k s"])
      (auto simp: assms intro: stream_ok_step drained_inv_step)
  then show ?thesis ..
qed

lemma pushed_step: "prefix (pushed s) (pushed (step cfg e s))"
proof (cases e)
  case Worker
  then show ?thesis by (cases "wpc s") (simp_all add: worker_step_def split: list.splits option.splits)
next
  case (Producer i)
  then show ?thesis
    by (cases "ppc (producers s i)") (simp_all add: producer_step_def notify_one_def split: list.splits)
next
  case Owner
  then show ?thesis by (cases "opc s") (simp_all add: owner_step_def notify_one_def)
next
  case Spurious
  then show ?thesis by (simp add: spurious_wakeup_def)
next
  case (Overflow n)
  then show ?thesis by simp
qed

lemma pushed_run: "prefix (pushed s) (pushed (run cfg es s))"
  by (rule run_invariant[where P = "\<lambda>t. prefix (pushed s) (pushed t)"])
    (auto intro: prefix_order.trans pushed_step)

lemma post_drain_final: "post_drain pc \<Longrightarrow> final_phase pc"
  by (cases pc) simp_all

lemma stop_step:
  assumes "\<not> m_stop s" and "m_stop (step cfg Owner s)"
  shows "wpc (step cfg Owner s) = wpc s \<and> pushed (step cfg Owner s) = pushed s
         \<and> m_q (step cfg Owner s) = m_q s"
  using assms by (cases "opc s") (simp_all add: owner_step_def notify_one_def split: if_splits)

text \<open>What the file holds once the worker has returned after a successful open.\<close>

lemma returned_disk:
  assumes "can_open cfg" and "reachable cfg disk0 rows s" and "wpc s = W_Returned"
  shows "disk s = Some (header_line cfg
           @ lines_text (take (length (pushed s) - length (m_q s)) (map snd (pushed s))))"
proof -
  have so: "stream_ok disk0 s" using assms by (simp add: reachable_stream_ok)
  have fo: "fifo_ok cfg s" using assms by (simp add: reachable_fifo_ok)
  have qi: "queue_inv s" using assms by (simp add: reachable_queue_inv)
  from qi assms(3) obtain ws where d: "map snd (pushed s) = ws @ m_q s"
    by (auto simp: queue_inv_def suffix_def)
  then have "length (pushed s) = length ws + length (m_q s)"
    by (metis length_append length_map)
  then have t: "take (length (pushed s) - length (m_q s)) (map snd (pushed s)) = ws"
    using d by simp
  from so assms(3) obtain c where c: "disk s = Some c" and b: "out_buffer s = []"
    by (auto simp: stream_ok_def)
  from fo assms(3) have "emitted s @ lines_text (m_q s)
      = header_line cfg @ lines_text (map snd (pushed s))"
    by (simp add: fifo_ok_def header_part_def)
  then have "c = header_line cfg @ lines_text ws"
    using c b d by (simp add: emitted_def content_def)
  then show ?thesis using c t by simp
qed

section \<open>Shutdown\<close>

lemma stopping_step_drained:
  assumes "can_open cfg" and "reachable cfg disk0 rows s"
    and "\<not> m_stop s" and "m_stop (step cfg Owner s)"
  shows "drained_inv (length (pushed s)) (step cfg Owner s)"
proof -
  have "final_inv s" using assms(1,2) by (rule reachable_final_inv)
  then have "\<not> post_drain (wpc s)"
    using assms(3) post_drain_final by (auto simp: final_inv_def)
  then show ?thesis
    using stop_step[OF assms(3,4)] assms(4) by (simp add: drained_inv_def)
qed

text \<open>
  Take any reachable state \<open>s\<close> in which the destructor is about to set \<^verbatim>\<open>stop_\<close>, and any
  schedule \<open>es\<close> after that step at whose end \<^verbatim>\<open>join\<close> has returned. If the file could be
  opened, the file then holds the header line (if one was configured), then every line
  pushed before \<^verbatim>\<open>stop_\<close> was set, in the order of the pushes and each followed by a
  newline, then the lines pushed later that the final drain still met; the stream
  buffer is empty and the stream has been closed, once. Whether \<^verbatim>\<open>join\<close> returns is the
  subject of the sections on schedules and on lost wakeups below.
\<close>

lemma joined_flush:
  assumes "can_open cfg" and "reachable cfg disk0 rows s"
    and "\<not> m_stop s" and "m_stop (step cfg Owner s)"
    and "opc (run cfg es (step cfg Owner s)) = O_Joined"
  shows "\<exists>later.
           prefix (pushed s @ later) (pushed (run cfg es (step cfg Owner s)))
         \<and> disk (run cfg es (step cfg Owner s))
             = Some (header_line cfg @ lines_text (map snd (pushed s)) @ lines_text (map snd later))
         \<and> out_buffer (run cfg es (step cfg Owner s)) = []
         \<and> \<not> out_is_open (run cfg es (step cfg Owner s))
         \<and> closes (run cfg es (step cfg Owner s)) = 1"
proof -
  define s2 where "s2 = step cfg Owner s"
  define s3 where "s3 = run cfg es s2"
  define k where "k = length (pushed s)"
  define n where "n = length (pushed s3) - length (m_q s3)"
  have r2: "reachable cfg disk0 rows s2"
    unfolding s2_def using assms(2) by (rule reachable_step)
  then have r3: "reachable cfg disk0 rows s3"
    unfolding s3_def by (rule reachable_run)
  have j: "opc s3 = O_Joined" using assms(5) by (simp add: s3_def s2_def)
  have w: "wpc s3 = W_Returned"
    using reachable_owner_inv[OF r3] j by (simp add: owner_inv_def)
  have so3: "stream_ok disk0 s3" using assms(1) r3 by (rule reachable_stream_ok)
  have d: "disk s3 = Some (header_line cfg @ lines_text (take n (map snd (pushed s3))))"
    unfolding n_def using assms(1) r3 w by (rule returned_disk)
  have "drained_inv k s2"
    unfolding k_def s2_def using assms(1-4) by (rule stopping_step_drained)
  then have "drained_inv k s3"
    unfolding s3_def using assms(1) reachable_stream_ok[OF assms(1) r2]
    by (simp add: drained_inv_run)
  then have "k + length (m_q s3) \<le> length (pushed s3)"
    using w by (simp add: drained_inv_def)
  then have kn: "k \<le> n" unfolding n_def by linarith
  have "prefix (pushed s2) (pushed s3)" unfolding s3_def by (rule pushed_run)
  moreover have "pushed s2 = pushed s"
    unfolding s2_def using stop_step[OF assms(3,4)] by simp
  ultimately obtain rest where rest: "pushed s3 = pushed s @ rest"
    by (auto simp: prefix_def)
  have t: "take n (map snd (pushed s3)) = map snd (pushed s) @ map snd (take (n - k) rest)"
    using kn by (simp add: rest take_map k_def)
  have p: "prefix (pushed s @ take (n - k) rest) (pushed s3)"
    by (simp add: rest take_is_prefix)
  have "prefix (pushed s @ take (n - k) rest) (pushed s3)
      \<and> disk s3 = Some (header_line cfg @ lines_text (map snd (pushed s))
                        @ lines_text (map snd (take (n - k) rest)))
      \<and> out_buffer s3 = [] \<and> \<not> out_is_open s3 \<and> closes s3 = 1"
    using p d t so3 w by (simp add: stream_ok_def)
  then show ?thesis
    unfolding s3_def s2_def by (rule exI)
qed

section \<open>A path that cannot be opened\<close>

lemma lost_inv_step:
  assumes "stream_failed cfg disk0 s" and "lost_inv s"
  shows "lost_inv (step cfg e s)"
proof (cases e)
  case Worker
  then show ?thesis
    using assms by (auto simp: lost_inv_def stream_failed_def worker_step_def)
next
  case (Producer i)
  then show ?thesis
    using assms(2)
    by (cases "ppc (producers s i)")
      (simp_all add: lost_inv_def producer_step_def notify_one_def split: list.splits)
next
  case Owner
  then show ?thesis
    using assms(2) by (cases "opc s") (simp_all add: lost_inv_def owner_step_def notify_one_def)
next
  case Spurious
  then show ?thesis using assms(2) by (simp add: lost_inv_def spurious_wakeup_def)
next
  case (Overflow n)
  then show ?thesis using assms(2) by (simp add: lost_inv_def)
qed

lemma lost_inv_init: "lost_inv (init disk0 rows)"
  by (simp add: lost_inv_def init_def)

lemma reachable_lost_inv:
  assumes "\<not> can_open cfg" and "reachable cfg disk0 rows s"
  shows "lost_inv s"
proof -
  have "stream_failed cfg disk0 s \<and> lost_inv s"
    using assms(2)
    by (rule reachable_invariant)
      (auto simp: stream_failed_init lost_inv_init assms(1)
        intro: stream_failed_step lost_inv_step)
  then show ?thesis ..
qed

lemma producer_progress:
  assumes "mutex_inv s" and "\<not> finished (producers s i)"
    and "m_q_mutex s = None \<or> m_q_mutex s = Some (T_producer i)"
  shows "remaining (producers (producer_step i s) i) < remaining (producers s i)"
proof -
  have P: "holds_p (ppc (producers s i)) = (m_q_mutex s = Some (T_producer i))"
    using assms(1) by (simp add: mutex_inv_def)
  show ?thesis
  proof (cases "ppc (producers s i)")
    case P_Idle
    then show ?thesis
      using assms(2)
      by (cases "todo (producers s i)") (simp_all add: producer_step_def remaining_def finished_def)
  next
    case (P_Built l)
    then show ?thesis
      using P assms(3) by (simp add: producer_step_def remaining_def)
  qed (simp_all add: producer_step_def remaining_def notify_one_def)
qed

text \<open>
  C3: when \<^verbatim>\<open>out_.open(path_)\<close> fails, in every reachable state the file is as it was
  before the logger existed, the stream holds nothing and was never opened; the worker
  returns within two steps of its own, and has by then written the diagnostic
  \<^verbatim>\<open>[CSVWriter]: Could not open path '...'!\<close> to the error stream, and nothing else. No
  step reports the failure to a producer: every pushed line stays in the queue for good
  (nothing is ever popped), the worker never takes the queue mutex, and a \<^verbatim>\<open>write\<close> call
  advances whenever no other producer holds the mutex, so it returns.
\<close>

theorem C3_open_failure:
  assumes "\<not> can_open cfg" and "reachable cfg disk0 rows s"
  shows "disk s = disk0 \<and> out_buffer s = [] \<and> \<not> out_is_open s \<and> opens s = 0
       \<and> cerr s = (if wpc s = W_Returned then diagnostic cfg else [])
       \<and> wpc (run cfg [Worker, Worker] s) = W_Returned
       \<and> cerr (run cfg [Worker, Worker] s) = diagnostic cfg
       \<and> m_q s = map snd (pushed s)
       \<and> m_q_mutex s \<noteq> Some T_worker
       \<and> (\<forall>i. \<not> finished (producers s i)
               \<and> (m_q_mutex s = None \<or> m_q_mutex s = Some (T_producer i))
             \<longrightarrow> remaining (producers (step cfg (Producer i) s) i) < remaining (producers s i))"
proof -
  have sf: "stream_failed cfg disk0 s" using assms by (rule reachable_stream_failed)
  have li: "lost_inv s" using assms by (rule reachable_lost_inv)
  have mi: "mutex_inv s" using assms(2) by (rule reachable_mutex_inv)
  have w: "wpc s = W_Open \<or> wpc s = W_IsOpen \<or> wpc s = W_Returned"
    using sf by (simp add: stream_failed_def)
  have a: "disk s = disk0 \<and> out_buffer s = [] \<and> \<not> out_is_open s \<and> opens s = 0
       \<and> cerr s = (if wpc s = W_Returned then diagnostic cfg else [])"
    using sf by (simp add: stream_failed_def)
  have b: "wpc (run cfg [Worker, Worker] s) = W_Returned
       \<and> cerr (run cfg [Worker, Worker] s) = diagnostic cfg"
    using w
  proof (elim disjE)
    assume "wpc s = W_Open"
    then show ?thesis using sf assms(1) by (simp add: stream_failed_def worker_step_def)
  next
    assume "wpc s = W_IsOpen"
    then show ?thesis using sf assms(1) by (simp add: stream_failed_def worker_step_def)
  next
    assume "wpc s = W_Returned"
    then show ?thesis using sf assms(1) by (simp add: stream_failed_def worker_step_def)
  qed
  have c: "m_q_mutex s \<noteq> Some T_worker"
  proof
    assume "m_q_mutex s = Some T_worker"
    then have "holds_w (wpc s)" using mi by (simp add: mutex_inv_def)
    then show False using w by auto
  qed
  have d: "\<forall>i. \<not> finished (producers s i)
               \<and> (m_q_mutex s = None \<or> m_q_mutex s = Some (T_producer i))
             \<longrightarrow> remaining (producers (step cfg (Producer i) s) i) < remaining (producers s i)"
    using mi by (simp add: producer_progress)
  have e: "m_q s = map snd (pushed s)" using li by (simp add: lost_inv_def)
  from a b c d e show ?thesis by blast
qed

theorem C3_open_failure_witness:
  "\<not> can_open ex_cfg_fail
   \<and> disk (run ex_cfg_fail ex_fail_schedule (init (Some ''old'') ex_rows)) = Some ''old''
   \<and> cerr (run ex_cfg_fail ex_fail_schedule (init (Some ''old'') ex_rows))
       = ''[CSVWriter]: Could not open path '' @ [CHR 0x27] @ ''/no/such/dir/P'' @ [CHR 0x27] @ ''!'' @ nl
   \<and> m_q (run ex_cfg_fail ex_fail_schedule (init (Some ''old'') ex_rows)) = [''1,2.000000,a'']
   \<and> \<not> finished (producers (run ex_cfg_fail ex_fail_schedule (init (Some ''old'') ex_rows)) 0)
   \<and> m_q_mutex (run ex_cfg_fail ex_fail_schedule (init (Some ''old'') ex_rows)) = Some (T_producer 0)
   \<and> remaining (producers (step ex_cfg_fail (Producer 0)
         (run ex_cfg_fail ex_fail_schedule (init (Some ''old'') ex_rows))) 0)
       < remaining (producers (run ex_cfg_fail ex_fail_schedule (init (Some ''old'') ex_rows)) 0)"
proof -
  let ?s = "run ex_cfg_fail ex_fail_schedule (init (Some ''old'') ex_rows)"
  have c: "\<not> can_open ex_cfg_fail" by (simp add: ex_cfg_fail_def)
  have r: "reachable ex_cfg_fail (Some ''old'') ex_rows ?s"
    by (rule reachable_run) (rule reachable_init)
  have w: "wpc ?s = W_Returned"
    by (simp add: ex_cfg_fail_def ex_rows_def ex_fail_schedule_def eval_defs)
  have f: "\<not> finished (producers ?s 0)"
    by (simp add: ex_cfg_fail_def ex_rows_def ex_fail_schedule_def eval_defs finished_def)
  have m: "m_q_mutex ?s = Some (T_producer 0)"
    by (simp add: ex_cfg_fail_def ex_rows_def ex_fail_schedule_def eval_defs)
  have q: "pushed ?s = [(0, ''1,2.000000,a'')]"
    by (simp add: ex_cfg_fail_def ex_rows_def ex_fail_schedule_def eval_defs)
  have d: "diagnostic ex_cfg_fail
     = ''[CSVWriter]: Could not open path '' @ [CHR 0x27] @ ''/no/such/dir/P'' @ [CHR 0x27] @ ''!'' @ nl"
    by (simp add: diagnostic_def ex_cfg_fail_def)
  show ?thesis
    using C3_open_failure[OF c r] c w f m q d by simp
qed

section \<open>The file handle\<close>

lemma stream_facts:
  assumes "reachable cfg disk0 rows s"
  shows "opens s \<le> 1 \<and> closes s \<le> opens s
       \<and> (out_is_open s \<longrightarrow> opens s = 1 \<and> closes s = 0)
       \<and> (wpc s = W_Open \<longrightarrow> opens s = 0 \<and> \<not> out_is_open s \<and> disk s = disk0)
       \<and> (closes s = 1 \<longrightarrow> wpc s = W_Returned)"
proof (cases "can_open cfg")
  case True
  then have "stream_ok disk0 s" using assms by (rule reachable_stream_ok)
  then show ?thesis by (auto simp: stream_ok_def split: if_splits)
next
  case False
  then have "stream_failed cfg disk0 s" using assms by (rule reachable_stream_failed)
  then show ?thesis by (auto simp: stream_failed_def)
qed

lemma handle_other_threads:
  "e \<noteq> Worker \<Longrightarrow>
   opens (step cfg e s) = opens s \<and> closes (step cfg e s) = closes s
   \<and> out_is_open (step cfg e s) = out_is_open s"
proof (cases e)
  case (Producer i)
  then show ?thesis
    by (cases "ppc (producers s i)")
      (simp_all add: producer_step_def notify_one_def split: list.splits)
next
  case Owner
  then show ?thesis by (cases "opc s") (simp_all add: owner_step_def notify_one_def)
qed (simp_all add: spurious_wakeup_def overflow_def)

lemma handle_worker:
  "(opens (worker_step cfg s) \<noteq> opens s \<longrightarrow>
      wpc s = W_Open \<and> can_open cfg \<and> opens (worker_step cfg s) = opens s + 1
      \<and> out_is_open (worker_step cfg s) \<and> disk (worker_step cfg s) = Some [])
   \<and> (closes (worker_step cfg s) \<noteq> closes s \<longrightarrow>
      wpc s = W_Close \<and> wpc (worker_step cfg s) = W_Returned
      \<and> \<not> out_is_open (worker_step cfg s))"
  by (cases "wpc s") (simp_all add: worker_step_def split: list.splits option.splits)

text \<open>
  C7: there is one stream, \<^verbatim>\<open>out_\<close>. In every reachable state it has been opened at most
  once and closed at most as often as opened; while it is open it has been opened
  exactly once and never closed. Only a step of the worker opens or closes it: the open
  is the worker's first step (before it, the file is untouched; after a successful
  open, the file is empty, whatever it held), and the close is the step by which the
  worker returns.
\<close>

theorem C7_single_file_handle:
  assumes "reachable cfg disk0 rows s"
  shows "opens s \<le> 1 \<and> closes s \<le> opens s
       \<and> (out_is_open s \<longrightarrow> opens s = 1 \<and> closes s = 0)
       \<and> (wpc s = W_Open \<longrightarrow> opens s = 0 \<and> \<not> out_is_open s \<and> disk s = disk0)
       \<and> (closes s = 1 \<longrightarrow> wpc s = W_Returned)
       \<and> (\<forall>e. e \<noteq> Worker \<longrightarrow>
             opens (step cfg e s) = opens s \<and> closes (step cfg e s) = closes s
             \<and> out_is_open (step cfg e s) = out_is_open s)
       \<and> (opens (step cfg Worker s) \<noteq> opens s \<longrightarrow>
             wpc s = W_Open \<and> can_open cfg \<and> opens (step cfg Worker s) = opens s + 1
             \<and> out_is_open (step cfg Worker s) \<and> disk (step cfg Worker s) = Some [])
       \<and> (closes (step cfg Worker s) \<noteq> closes s \<longrightarrow>
             wpc s = W_Close \<and> wpc (step cfg Worker s) = W_Returned
             \<and> \<not> out_is_open (step cfg Worker s))"
proof -
  have o: "\<forall>e. e \<noteq> Worker \<longrightarrow>
             opens (step cfg e s) = opens s \<and> closes (step cfg e s) = closes s
             \<and> out_is_open (step cfg e s) = out_is_open s"
    using handle_other_threads by blast
  have w: "(opens (step cfg Worker s) \<noteq> opens s \<longrightarrow>
             wpc s = W_Open \<and> can_open cfg \<and> opens (step cfg Worker s) = opens s + 1
             \<and> out_is_open (step cfg Worker s) \<and> disk (step cfg Worker s) = Some [])
       \<and> (closes (step cfg Worker s) \<noteq> closes s \<longrightarrow>
             wpc s = W_Close \<and> wpc (step cfg Worker s) = W_Returned
             \<and> \<not> out_is_open (step cfg Worker s))"
    using handle_worker[of cfg s] by simp
  from stream_facts[OF assms] o w show ?thesis by blast
qed

theorem C7_single_file_handle_witness:
  "wpc (init (Some ''old'') ex_rows) = W_Open
   \<and> opens (init (Some ''old'') ex_rows) = 0
   \<and> disk (init (Some ''old'') ex_rows) = Some ''old''
   \<and> opens (step ex_cfg Worker (init (Some ''old'') ex_rows)) = 1
   \<and> out_is_open (step ex_cfg Worker (init (Some ''old'') ex_rows))
   \<and> disk (step ex_cfg Worker (init (Some ''old'') ex_rows)) = Some []
   \<and> opens (run ex_cfg ex_schedule (init (Some ''old'') ex_rows)) = 1
   \<and> closes (run ex_cfg ex_schedule (init (Some ''old'') ex_rows)) = 1
   \<and> wpc (run ex_cfg ex_schedule (init (Some ''old'') ex_rows)) = W_Returned
   \<and> \<not> out_is_open (run ex_cfg ex_schedule (init (Some ''old'') ex_rows))"
proof -
  let ?i = "init (Some ''old'') ex_rows"
  let ?s = "run ex_cfg ex_schedule ?i"
  have r0: "reachable ex_cfg (Some ''old'') ex_rows ?i" by (rule reachable_init)
  have r: "reachable ex_cfg (Some ''old'') ex_rows ?s"
    by (rule reachable_run) (rule reachable_init)
  have w0: "wpc ?i = W_Open" by (simp add: init_def)
  have o1: "opens (step ex_cfg Worker ?i) \<noteq> opens ?i"
    by (simp add: init_def worker_step_def ex_cfg_def)
  have c1: "closes ?s = 1"
    by (simp add: ex_cfg_def ex_rows_def ex_schedule_def eval_defs)
  from C7_single_file_handle[OF r0] w0 o1
  have a: "opens ?i = 0" "disk ?i = Some ''old''"
    "opens (step ex_cfg Worker ?i) = opens ?i + 1" "out_is_open (step ex_cfg Worker ?i)"
    "disk (step ex_cfg Worker ?i) = Some []"
    by blast+
  from C7_single_file_handle[OF r] c1
  have b: "opens ?s \<le> 1" "closes ?s \<le> opens ?s" "wpc ?s = W_Returned"
    "out_is_open ?s \<longrightarrow> closes ?s = 0"
    by blast+
  show ?thesis using a b c1 w0 by auto
qed

section \<open>Order of the lines\<close>

lemma emitted_split:
  assumes "can_open cfg" and "reachable cfg disk0 rows s"
    and "wpc s \<noteq> W_Open" and "wpc s \<noteq> W_Undefined"
  shows "\<exists>n. n \<le> length (pushed s)
           \<and> emitted s = header_part cfg (wpc s) @ lines_text (take n (map snd (pushed s)))
           \<and> inflight (wpc s) @ m_q s = drop n (map snd (pushed s))"
proof -
  have "queue_inv s" using assms(2) by (rule reachable_queue_inv)
  then obtain ws where ws: "map snd (pushed s) = ws @ inflight (wpc s) @ m_q s"
    by (auto simp: queue_inv_def suffix_def)
  have "fifo_ok cfg s" using assms(1,2) by (rule reachable_fifo_ok)
  then have "emitted s @ lines_text (inflight (wpc s) @ m_q s)
      = header_part cfg (wpc s) @ lines_text (map snd (pushed s))"
    using assms(3,4) by (simp add: fifo_ok_def)
  then have "emitted s @ lines_text (inflight (wpc s) @ m_q s)
      = (header_part cfg (wpc s) @ lines_text ws) @ lines_text (inflight (wpc s) @ m_q s)"
    by (simp add: ws)
  then have e: "emitted s = header_part cfg (wpc s) @ lines_text ws"
    by (simp only: append_same_eq)
  have l: "length ws \<le> length (pushed s)"
    by (metis ws length_append length_map le_add1)
  have "take (length ws) (map snd (pushed s)) = ws
      \<and> drop (length ws) (map snd (pushed s)) = inflight (wpc s) @ m_q s"
    by (simp add: ws)
  then show ?thesis using e l by (intro exI[of _ "length ws"]) simp
qed



section \<open>What a call of write does\<close>

lemma buildString_join:
  "buildString t ts @ '','' = concat (map (\<lambda>f. toString f @ '','') (t # ts))"
  by (induction ts arbitrary: t) simp_all

lemma push_step:
  "ppc (producers s i) = P_Locked l \<Longrightarrow>
   m_q (producer_step i s) = m_q s @ [l] \<and> ppc (producers (producer_step i s) i) = P_Pushed
   \<and> m_q_mutex (producer_step i s) = m_q_mutex s"
  by (simp add: producer_step_def)

lemma notify_step:
  "ppc (producers s i) = P_Pushed \<Longrightarrow>
   wpc (producer_step i s) = (if wpc s = W_Waiting then D_Empty False else wpc s)
   \<and> ppc (producers (producer_step i s) i) = P_Notified
   \<and> m_q (producer_step i s) = m_q s \<and> m_q_mutex (producer_step i s) = m_q_mutex s"
  by (simp add: producer_step_def notify_one_def)

lemma no_other_push:
  "(\<forall>l. ppc (producers s i) \<noteq> P_Locked l) \<Longrightarrow> m_q (producer_step i s) = m_q s"
  by (cases "ppc (producers s i)") (simp_all add: producer_step_def notify_one_def split: list.splits)

lemma out_step:
  "wpc s = D_Out fin f \<Longrightarrow> out_buffer (worker_step cfg s) = out_buffer s @ f @ nl
    \<and> m_q (worker_step cfg s) = m_q s"
  by (simp add: worker_step_def)

text \<open>
  C5: the string \<^verbatim>\<open>write\<close> builds is the renderings of the fields with one comma between
  neighbours and nothing after the last (followed by a comma it is every rendering
  followed by a comma). In every reachable state the pushes of a producer, followed by
  the string it has built but not pushed and the rows it has not yet written, are its
  rows rendered: one string per call. A producer pushes and notifies only while it
  holds \<^verbatim>\<open>q_mutex_\<close>; the push appends exactly the built string to the queue, no other
  step of \<^verbatim>\<open>write\<close> changes the queue, the step after the push is the notification (which
  wakes a waiting worker), and the newline is added by the worker when it writes the
  line to the stream.
\<close>

theorem C5_write_enqueues_one_line:
  assumes "reachable cfg disk0 rows s"
  shows "build r @ '','' = concat (map (\<lambda>f. toString f @ '','') (fst r # snd r))
       \<and> (\<forall>i. lines_of i (pushed s) @ unpushed (producers s i) = map build (rows i))
       \<and> (\<forall>i. holds_p (ppc (producers s i)) \<longrightarrow> m_q_mutex s = Some (T_producer i))
       \<and> (\<forall>i l. ppc (producers s i) = P_Locked l \<longrightarrow>
             m_q_mutex s = Some (T_producer i)
             \<and> m_q (step cfg (Producer i) s) = m_q s @ [l]
             \<and> ppc (producers (step cfg (Producer i) s) i) = P_Pushed)
       \<and> (\<forall>i. (\<forall>l. ppc (producers s i) \<noteq> P_Locked l) \<longrightarrow>
             m_q (step cfg (Producer i) s) = m_q s)
       \<and> (\<forall>i. ppc (producers s i) = P_Pushed \<longrightarrow>
             m_q_mutex s = Some (T_producer i)
             \<and> wpc (step cfg (Producer i) s) = (if wpc s = W_Waiting then D_Empty False else wpc s)
             \<and> ppc (producers (step cfg (Producer i) s) i) = P_Notified)
       \<and> (\<forall>fin f. wpc s = D_Out fin f \<longrightarrow>
             out_buffer (step cfg Worker s) = out_buffer s @ f @ nl)"
proof -
  have mi: "mutex_inv s" using assms by (rule reachable_mutex_inv)
  have a: "build r @ '','' = concat (map (\<lambda>f. toString f @ '','') (fst r # snd r))"
    unfolding build_def by (rule buildString_join)
  have b: "\<forall>i. lines_of i (pushed s) @ unpushed (producers s i) = map build (rows i)"
    using reachable_log_inv[OF assms] by (simp add: log_inv_def)
  have c: "\<forall>i. holds_p (ppc (producers s i)) \<longrightarrow> m_q_mutex s = Some (T_producer i)"
    using mi by (simp add: mutex_inv_def)
  have d: "\<forall>i l. ppc (producers s i) = P_Locked l \<longrightarrow>
             m_q_mutex s = Some (T_producer i)
             \<and> m_q (step cfg (Producer i) s) = m_q s @ [l]
             \<and> ppc (producers (step cfg (Producer i) s) i) = P_Pushed"
  proof (intro allI impI)
    fix i l assume l: "ppc (producers s i) = P_Locked l"
    then have "holds_p (ppc (producers s i))" by simp
    then show "m_q_mutex s = Some (T_producer i)
             \<and> m_q (step cfg (Producer i) s) = m_q s @ [l]
             \<and> ppc (producers (step cfg (Producer i) s) i) = P_Pushed"
      using c push_step[OF l] by simp
  qed
  have e: "\<forall>i. (\<forall>l. ppc (producers s i) \<noteq> P_Locked l) \<longrightarrow>
             m_q (step cfg (Producer i) s) = m_q s"
    by (simp add: no_other_push)
  have f: "\<forall>i. ppc (producers s i) = P_Pushed \<longrightarrow>
             m_q_mutex s = Some (T_producer i)
             \<and> wpc (step cfg (Producer i) s) = (if wpc s = W_Waiting then D_Empty False else wpc s)
             \<and> ppc (producers (step cfg (Producer i) s) i) = P_Notified"
  proof (intro allI impI)
    fix i assume l: "ppc (producers s i) = P_Pushed"
    then have "holds_p (ppc (producers s i))" by simp
    then show "m_q_mutex s = Some (T_producer i)
             \<and> wpc (step cfg (Producer i) s) = (if wpc s = W_Waiting then D_Empty False else wpc s)
             \<and> ppc (producers (step cfg (Producer i) s) i) = P_Notified"
      using c notify_step[OF l] by simp
  qed
  have g: "\<forall>fin f. wpc s = D_Out fin f \<longrightarrow>
             out_buffer (step cfg Worker s) = out_buffer s @ f @ nl"
    by (simp add: out_step)
  from a b c d e f g show ?thesis by blast
qed

theorem C5_write_enqueues_one_line_witness:
  "build (Integer 1, [Floating (Double False 1 1), Text ''a'']) @ '','' = ''1,2.000000,a,''
   \<and> ppc (producers (run ex_cfg ex_locked (init None ex_rows)) 0) = P_Locked ''1,2.000000,a''
   \<and> m_q_mutex (run ex_cfg ex_locked (init None ex_rows)) = Some (T_producer 0)
   \<and> m_q (run ex_cfg ex_locked (init None ex_rows)) = []
   \<and> m_q (step ex_cfg (Producer 0) (run ex_cfg ex_locked (init None ex_rows))) = [''1,2.000000,a'']
   \<and> ppc (producers (run ex_cfg ex_pushed (init None ex_rows)) 0) = P_Pushed
   \<and> wpc (run ex_cfg ex_pushed (init None ex_rows)) = W_Waiting
   \<and> m_q_mutex (run ex_cfg ex_pushed (init None ex_rows)) = Some (T_producer 0)
   \<and> wpc (step ex_cfg (Producer 0) (run ex_cfg ex_pushed (init None ex_rows))) = D_Empty False
   \<and> wpc (run ex_cfg ex_out (init None ex_rows2)) = D_Out False ''7,-2.500000,c''
   \<and> out_buffer (step ex_cfg Worker (run ex_cfg ex_out (init None ex_rows2)))
       = out_buffer (run ex_cfg ex_out (init None ex_rows2)) @ ''7,-2.500000,c'' @ nl"
proof -
  let ?r = "(Integer 1, [Floating (Double False 1 1), Text ''a''])"
  let ?s1 = "run ex_cfg ex_locked (init None ex_rows)"
  let ?s2 = "run ex_cfg ex_pushed (init None ex_rows)"
  let ?s3 = "run ex_cfg ex_out (init None ex_rows2)"
  have r1: "reachable ex_cfg None ex_rows ?s1" by (rule reachable_run) (rule reachable_init)
  have r2: "reachable ex_cfg None ex_rows ?s2" by (rule reachable_run) (rule reachable_init)
  have r3: "reachable ex_cfg None ex_rows2 ?s3" by (rule reachable_run) (rule reachable_init)
  have e: "concat (map (\<lambda>f. toString f @ '','') (fst ?r # snd ?r)) = ''1,2.000000,a,''"
    by (simp add: eval_defs)
  have p1: "ppc (producers ?s1 0) = P_Locked ''1,2.000000,a''"
    by (simp add: ex_cfg_def ex_rows_def ex_locked_def eval_defs)
  have q1: "m_q ?s1 = []"
    by (simp add: ex_cfg_def ex_rows_def ex_locked_def eval_defs)
  have p2: "ppc (producers ?s2 0) = P_Pushed"
    by (simp add: ex_cfg_def ex_rows_def ex_pushed_def eval_defs)
  have w2: "wpc ?s2 = W_Waiting"
    by (simp add: ex_cfg_def ex_rows_def ex_pushed_def eval_defs)
  have w3: "wpc ?s3 = D_Out False ''7,-2.500000,c''"
    by (simp add: ex_cfg_def ex_rows2_def ex_out_def ex_midway_def eval_defs)
  from C5_write_enqueues_one_line[OF r1, of ?r] p1
  have a: "build ?r @ '','' = concat (map (\<lambda>f. toString f @ '','') (fst ?r # snd ?r))"
    "m_q_mutex ?s1 = Some (T_producer 0)"
    "m_q (step ex_cfg (Producer 0) ?s1) = m_q ?s1 @ [''1,2.000000,a'']"
    by blast+
  from C5_write_enqueues_one_line[OF r2, of ?r] p2
  have b: "m_q_mutex ?s2 = Some (T_producer 0)"
    "wpc (step ex_cfg (Producer 0) ?s2) = (if wpc ?s2 = W_Waiting then D_Empty False else wpc ?s2)"
    by blast+
  from C5_write_enqueues_one_line[OF r3, of ?r] w3
  have c: "out_buffer (step ex_cfg Worker ?s3) = out_buffer ?s3 @ ''7,-2.500000,c'' @ nl"
    by blast
  show ?thesis
    using a b c e p1 q1 p2 w2 w3 by simp
qed

section \<open>The header line\<close>

lemma header_join:
  "concat (map (\<lambda>i. (a # as) ! i @ '','') [0..<length as]) @ (a # as) ! length as
   = a @ concat (map (\<lambda>x. '','' @ x) as)"
proof (induction as arbitrary: a)
  case Nil
  then show ?case by simp
next
  case (Cons b bs)
  have "[0..<length (b # bs)] = 0 # map Suc [0..<length bs]"
    by (simp add: upt_conv_Cons map_Suc_upt del: upt_Suc)
  then show ?case
    using Cons[of b] by (simp add: comp_def del: upt_Suc)
qed

lemma header_text_Cons:
  "header_text (a # as) = Some (a @ concat (map (\<lambda>x. '','' @ x) as) @ nl)"
  using header_join[of a as] by (simp add: header_text_def)

lemma header_inv_step:
  assumes "can_open cfg" and "stream_ok disk0 s" and "header_inv cfg s"
  shows "header_inv cfg (step cfg e s)"
proof (cases e)
  case Worker
  then show ?thesis
    using assms
    by (cases "wpc s")
      (auto simp: header_inv_def worker_step_def stream_ok_def header_text_def
        split: list.splits)
next
  case (Producer i)
  then show ?thesis
    using assms(3)
    by (cases "ppc (producers s i)")
      (auto simp: header_inv_def producer_step_def notify_one_def split: list.splits)
next
  case Owner
  then show ?thesis
    using assms(3) by (cases "opc s") (auto simp: header_inv_def owner_step_def notify_one_def)
next
  case Spurious
  then show ?thesis using assms(3) by (auto simp: header_inv_def spurious_wakeup_def)
next
  case (Overflow n)
  then show ?thesis using assms(3) by (simp add: header_inv_def)
qed

lemma header_inv_init: "header_inv cfg (init disk0 rows)"
  by (simp add: header_inv_def init_def)

lemma reachable_header_inv:
  assumes "can_open cfg" and "reachable cfg disk0 rows s"
  shows "header_inv cfg s"
proof -
  have "stream_ok disk0 s \<and> header_inv cfg s"
    using assms(2)
    by (rule reachable_invariant)
      (auto simp: stream_ok_init header_inv_init assms(1)
        intro: stream_ok_step header_inv_step)
  then show ?thesis ..
qed

text \<open>
  C6: after a successful open the stream has received nothing before the header step.
  Past it, with a header configured, all the stream has received is the field names
  joined by commas and a newline, once, followed by data lines only (the first \<open>n\<close>
  pushed lines); without a header it is data lines only.
\<close>

theorem C6_header_once:
  assumes "can_open cfg" and "reachable cfg disk0 rows s"
    and "wpc s \<noteq> W_Open" and "wpc s \<noteq> W_Undefined"
  shows "(wpc s = W_IsOpen \<or> wpc s = W_Header \<longrightarrow> emitted s = [])
       \<and> (wpc s \<noteq> W_IsOpen \<and> wpc s \<noteq> W_Header \<and> m_has_header cfg \<longrightarrow>
            (\<exists>a as n. m_header cfg = a # as \<and> n \<le> length (pushed s)
               \<and> emitted s = a @ concat (map (\<lambda>x. '','' @ x) as) @ nl
                              @ lines_text (take n (map snd (pushed s)))))
       \<and> (wpc s \<noteq> W_IsOpen \<and> wpc s \<noteq> W_Header \<and> \<not> m_has_header cfg \<longrightarrow>
            (\<exists>n. n \<le> length (pushed s)
               \<and> emitted s = lines_text (take n (map snd (pushed s)))))"
proof -
  have so: "stream_ok disk0 s" using assms(1,2) by (rule reachable_stream_ok)
  have hi: "header_inv cfg s" using assms(1,2) by (rule reachable_header_inv)
  obtain n where n: "n \<le> length (pushed s)"
    "emitted s = header_part cfg (wpc s) @ lines_text (take n (map snd (pushed s)))"
    using emitted_split[OF assms] by blast
  have a: "wpc s = W_IsOpen \<or> wpc s = W_Header \<longrightarrow> emitted s = []"
    using so by (auto simp: stream_ok_def emitted_def content_def)
  have b: "wpc s \<noteq> W_IsOpen \<and> wpc s \<noteq> W_Header \<and> m_has_header cfg \<longrightarrow>
            (\<exists>a as n. m_header cfg = a # as \<and> n \<le> length (pushed s)
               \<and> emitted s = a @ concat (map (\<lambda>x. '','' @ x) as) @ nl
                              @ lines_text (take n (map snd (pushed s))))"
  proof
    assume h: "wpc s \<noteq> W_IsOpen \<and> wpc s \<noteq> W_Header \<and> m_has_header cfg"
    then have "m_header cfg \<noteq> []" using hi assms(3,4) by (auto simp: header_inv_def)
    then obtain a as where c: "m_header cfg = a # as" by (cases "m_header cfg") auto
    have "header_part cfg (wpc s) = a @ concat (map (\<lambda>x. '','' @ x) as) @ nl"
      using h assms(3) c by (simp add: header_part_def header_line_def header_text_Cons)
    then show "\<exists>a as n. m_header cfg = a # as \<and> n \<le> length (pushed s)
               \<and> emitted s = a @ concat (map (\<lambda>x. '','' @ x) as) @ nl
                              @ lines_text (take n (map snd (pushed s)))"
      using n c by auto
  qed
  have c: "wpc s \<noteq> W_IsOpen \<and> wpc s \<noteq> W_Header \<and> \<not> m_has_header cfg \<longrightarrow>
            (\<exists>n. n \<le> length (pushed s)
               \<and> emitted s = lines_text (take n (map snd (pushed s))))"
  proof
    assume h: "wpc s \<noteq> W_IsOpen \<and> wpc s \<noteq> W_Header \<and> \<not> m_has_header cfg"
    then have "header_part cfg (wpc s) = []"
      by (simp add: header_part_def header_line_def)
    then show "\<exists>n. n \<le> length (pushed s)
               \<and> emitted s = lines_text (take n (map snd (pushed s)))"
      using n by auto
  qed
  from a b c show ?thesis by blast
qed

theorem C6_header_once_witness:
  "can_open ex_cfg \<and> m_has_header ex_cfg
   \<and> wpc (run ex_cfg [Worker, Worker] (init (Some ''old'') ex_rows2)) = W_Header
   \<and> emitted (run ex_cfg [Worker, Worker] (init (Some ''old'') ex_rows2)) = []
   \<and> wpc (run ex_cfg ex_midway (init None ex_rows2)) = D_Unlock False ''7,-2.500000,c''
   \<and> emitted (run ex_cfg ex_midway (init None ex_rows2)) = ''t,x,y'' @ nl @ ''1,2.000000,a'' @ nl
   \<and> (\<exists>a as n. m_header ex_cfg = a # as
         \<and> n \<le> length (pushed (run ex_cfg ex_midway (init None ex_rows2)))
         \<and> emitted (run ex_cfg ex_midway (init None ex_rows2))
             = a @ concat (map (\<lambda>x. '','' @ x) as) @ nl
               @ lines_text (take n (map snd (pushed (run ex_cfg ex_midway (init None ex_rows2))))))
   \<and> can_open ex_cfg_plain \<and> \<not> m_has_header ex_cfg_plain
   \<and> emitted (run ex_cfg_plain ex_midway (init None ex_rows2)) = ''1,2.000000,a'' @ nl
   \<and> (\<exists>n. n \<le> length (pushed (run ex_cfg_plain ex_midway (init None ex_rows2)))
         \<and> emitted (run ex_cfg_plain ex_midway (init None ex_rows2))
             = lines_text (take n (map snd (pushed (run ex_cfg_plain ex_midway (init None ex_rows2))))))"
proof -
  let ?s0 = "run ex_cfg [Worker, Worker] (init (Some ''old'') ex_rows2)"
  let ?s1 = "run ex_cfg ex_midway (init None ex_rows2)"
  let ?s2 = "run ex_cfg_plain ex_midway (init None ex_rows2)"
  have c1: "can_open ex_cfg" "m_has_header ex_cfg" by (simp_all add: ex_cfg_def)
  have c2: "can_open ex_cfg_plain" "\<not> m_has_header ex_cfg_plain"
    by (simp_all add: ex_cfg_plain_def)
  have r0: "reachable ex_cfg (Some ''old'') ex_rows2 ?s0"
    by (rule reachable_run) (rule reachable_init)
  have r1: "reachable ex_cfg None ex_rows2 ?s1" by (rule reachable_run) (rule reachable_init)
  have r2: "reachable ex_cfg_plain None ex_rows2 ?s2"
    by (rule reachable_run) (rule reachable_init)
  have w0: "wpc ?s0 = W_Header" by (simp add: ex_cfg_def eval_defs)
  have w1: "wpc ?s1 = D_Unlock False ''7,-2.500000,c''"
    by (simp add: ex_cfg_def ex_rows2_def ex_midway_def eval_defs)
  have w2: "wpc ?s2 = D_Unlock False ''7,-2.500000,c''"
    by (simp add: ex_cfg_plain_def ex_rows2_def ex_midway_def eval_defs)
  have e1: "emitted ?s1 = ''t,x,y'' @ nl @ ''1,2.000000,a'' @ nl"
    by (simp add: ex_cfg_def ex_rows2_def ex_midway_def eval_defs emitted_def)
  have e2: "emitted ?s2 = ''1,2.000000,a'' @ nl"
    by (simp add: ex_cfg_plain_def ex_rows2_def ex_midway_def eval_defs emitted_def)
  have a: "emitted ?s0 = []"
    using C6_header_once[OF c1(1) r0] w0 by simp
  have b: "\<exists>a as n. m_header ex_cfg = a # as \<and> n \<le> length (pushed ?s1)
         \<and> emitted ?s1 = a @ concat (map (\<lambda>x. '','' @ x) as) @ nl
               @ lines_text (take n (map snd (pushed ?s1)))"
    using C6_header_once[OF c1(1) r1] w1 c1(2) by simp
  have c: "\<exists>n. n \<le> length (pushed ?s2)
         \<and> emitted ?s2 = lines_text (take n (map snd (pushed ?s2)))"
    using C6_header_once[OF c2(1) r2] w2 c2(2) by simp
  show ?thesis using a b c c1 c2 w0 w1 e1 e2 by blast
qed

section \<open>Schedules on which the destructor returns\<close>


lemma replicate_five: "replicate (5 * Suc n) x = [x, x, x, x, x] @ replicate (5 * n) x"
  by (simp add: numeral_eq_Suc)

lemma one_write:
  assumes "ppc (producers s 0) = P_Idle" and "todo (producers s 0) = r # rs"
    and "m_q_mutex s = None" and "wpc s \<noteq> W_Waiting"
  shows "ppc (producers (run cfg [Producer 0, Producer 0, Producer 0, Producer 0, Producer 0] s) 0) = P_Idle
       \<and> todo (producers (run cfg [Producer 0, Producer 0, Producer 0, Producer 0, Producer 0] s) 0) = rs
       \<and> m_q (run cfg [Producer 0, Producer 0, Producer 0, Producer 0, Producer 0] s) = m_q s @ [build r]
       \<and> m_q_mutex (run cfg [Producer 0, Producer 0, Producer 0, Producer 0, Producer 0] s) = None
       \<and> wpc (run cfg [Producer 0, Producer 0, Producer 0, Producer 0, Producer 0] s) = wpc s
       \<and> opc (run cfg [Producer 0, Producer 0, Producer 0, Producer 0, Producer 0] s) = opc s
       \<and> m_stop (run cfg [Producer 0, Producer 0, Producer 0, Producer 0, Producer 0] s) = m_stop s
       \<and> out_is_open (run cfg [Producer 0, Producer 0, Producer 0, Producer 0, Producer 0] s) = out_is_open s"
  using assms by (simp add: producer_step_def notify_one_def)

lemma all_writes:
  assumes "ppc (producers s 0) = P_Idle" and "todo (producers s 0) = rs"
    and "m_q_mutex s = None" and "wpc s \<noteq> W_Waiting"
  shows "finished (producers (run cfg (replicate (5 * length rs) (Producer 0)) s) 0)
       \<and> m_q (run cfg (replicate (5 * length rs) (Producer 0)) s) = m_q s @ map build rs
       \<and> m_q_mutex (run cfg (replicate (5 * length rs) (Producer 0)) s) = None
       \<and> wpc (run cfg (replicate (5 * length rs) (Producer 0)) s) = wpc s
       \<and> opc (run cfg (replicate (5 * length rs) (Producer 0)) s) = opc s
       \<and> m_stop (run cfg (replicate (5 * length rs) (Producer 0)) s) = m_stop s
       \<and> out_is_open (run cfg (replicate (5 * length rs) (Producer 0)) s) = out_is_open s"
  using assms
proof (induction rs arbitrary: s)
  case Nil
  then show ?case by (simp add: finished_def)
next
  case (Cons r rs)
  define t where "t = run cfg [Producer 0, Producer 0, Producer 0, Producer 0, Producer 0] s"
  have t: "ppc (producers t 0) = P_Idle \<and> todo (producers t 0) = rs
       \<and> m_q t = m_q s @ [build r] \<and> m_q_mutex t = None \<and> wpc t = wpc s \<and> opc t = opc s
       \<and> m_stop t = m_stop s \<and> out_is_open t = out_is_open s"
    unfolding t_def using Cons.prems by (intro one_write) auto
  have r: "run cfg (replicate (5 * length (r # rs)) (Producer 0)) s
      = run cfg (replicate (5 * length rs) (Producer 0)) t"
    unfolding t_def by (simp only: list.size replicate_five run_append add_Suc_right add_0_right)
  show ?case
    unfolding r using Cons.IH[of t] t Cons.prems(4) by simp
qed

lemma one_line:
  assumes "wpc s = D_Empty fin" and "m_q s = l # ls" and "m_q_mutex s = None"
  shows "wpc (run cfg [Worker, Worker, Worker, Worker, Worker] s) = D_Empty fin
       \<and> m_q (run cfg [Worker, Worker, Worker, Worker, Worker] s) = ls
       \<and> m_q_mutex (run cfg [Worker, Worker, Worker, Worker, Worker] s) = None
       \<and> opc (run cfg [Worker, Worker, Worker, Worker, Worker] s) = opc s
       \<and> out_is_open (run cfg [Worker, Worker, Worker, Worker, Worker] s) = out_is_open s
       \<and> m_stop (run cfg [Worker, Worker, Worker, Worker, Worker] s) = m_stop s
       \<and> pushed (run cfg [Worker, Worker, Worker, Worker, Worker] s) = pushed s"
  using assms by (simp add: worker_step_def)

lemma all_lines:
  assumes "wpc s = D_Empty fin" and "m_q s = ls" and "m_q_mutex s = None"
  shows "wpc (run cfg (replicate (5 * length ls) Worker) s) = D_Empty fin
       \<and> m_q (run cfg (replicate (5 * length ls) Worker) s) = []
       \<and> m_q_mutex (run cfg (replicate (5 * length ls) Worker) s) = None
       \<and> opc (run cfg (replicate (5 * length ls) Worker) s) = opc s
       \<and> out_is_open (run cfg (replicate (5 * length ls) Worker) s) = out_is_open s
       \<and> m_stop (run cfg (replicate (5 * length ls) Worker) s) = m_stop s
       \<and> pushed (run cfg (replicate (5 * length ls) Worker) s) = pushed s"
  using assms
proof (induction ls arbitrary: s)
  case Nil
  then show ?case by simp
next
  case (Cons l ls)
  define t where "t = run cfg [Worker, Worker, Worker, Worker, Worker] s"
  have t: "wpc t = D_Empty fin \<and> m_q t = ls \<and> m_q_mutex t = None \<and> opc t = opc s
       \<and> out_is_open t = out_is_open s \<and> m_stop t = m_stop s \<and> pushed t = pushed s"
    unfolding t_def using Cons.prems by (intro one_line) auto
  have r: "run cfg (replicate (5 * length (l # ls)) Worker) s
      = run cfg (replicate (5 * length ls) Worker) t"
    unfolding t_def by (simp only: list.size replicate_five run_append add_Suc_right add_0_right)
  show ?case
    unfolding r using Cons.IH[of t] t by simp
qed

lemma calm_schedule_returns:
  assumes "can_open cfg" and "m_has_header cfg \<longrightarrow> m_header cfg \<noteq> []"
  shows "opc (run cfg (calm_schedule (length (rows 0))) (init disk0 rows)) = O_Joined"
proof -
  define n where "n = length (rows 0)"
  define s1 where "s1 = run cfg (replicate (5 * n) (Producer 0)) (init disk0 rows)"
  define s2 where "s2 = run cfg [Owner, Owner] s1"
  define s3 where "s3 = run cfg [Worker, Worker, Worker, Worker] s2"
  define s4 where "s4 = run cfg (replicate (5 * n) Worker) s3"
  define s5 where "s5 = run cfg [Worker, Worker, Worker] s4"
  have a: "finished (producers s1 0) \<and> m_q s1 = map build (rows 0) \<and> m_q_mutex s1 = None
      \<and> wpc s1 = W_Open \<and> opc s1 = O_Alive \<and> \<not> out_is_open s1"
    using all_writes[of "init disk0 rows" "rows 0" cfg]
    by (simp add: s1_def n_def init_def)
  then have b: "m_stop s2 \<and> opc s2 = O_Notified \<and> wpc s2 = W_Open \<and> m_q s2 = map build (rows 0)
      \<and> m_q_mutex s2 = None \<and> \<not> out_is_open s2"
    by (simp add: s2_def owner_step_def notify_one_def finished_def)
  obtain h where h: "m_has_header cfg \<longrightarrow> header_text (m_header cfg) = Some h"
    using assms(2) by (auto simp: header_text_def)
  have c: "wpc s3 = D_Empty True \<and> opc s3 = O_Notified \<and> m_q s3 = map build (rows 0)
      \<and> m_q_mutex s3 = None \<and> out_is_open s3"
    using b assms(1) h by (simp add: s3_def worker_step_def)
  then have d: "wpc s4 = D_Empty True \<and> m_q s4 = [] \<and> opc s4 = O_Notified \<and> out_is_open s4"
    using all_lines[where s = s3 and ls = "map build (rows 0)" and cfg = cfg and fin = True]
    by (simp add: s4_def n_def)
  then have e: "wpc s5 = W_Returned \<and> opc s5 = O_Notified"
    by (simp add: s5_def worker_step_def)
  have "run cfg (calm_schedule n) (init disk0 rows) = run cfg [Owner] s5"
    by (simp only: calm_schedule_def run_append s1_def s2_def s3_def s4_def s5_def)
  then show ?thesis using e by (simp add: n_def owner_step_def)
qed

text \<open>
  The shutdown as the destructor intends it. The worker waits, no \<^verbatim>\<open>write\<close> call is under
  way or to come, and the destructor is about to start: it sets \<^verbatim>\<open>stop_\<close>, its
  \<^verbatim>\<open>notify_one\<close> wakes the worker, the worker drains the queue, finds \<^verbatim>\<open>stop_\<close> set,
  drains once more, flushes, closes and returns, and \<^verbatim>\<open>join\<close> returns. The file then
  holds the header line and every line that was pushed.
\<close>

lemma waiting_worker_shutdown:
  assumes "can_open cfg" and "reachable cfg disk0 rows s"
    and "wpc s = W_Waiting" and "opc s = O_Alive" and "\<forall>i. finished (producers s i)"
  shows "opc (run cfg (wake_schedule (length (m_q s))) s) = O_Joined
       \<and> disk (run cfg (wake_schedule (length (m_q s))) s)
           = Some (header_line cfg @ lines_text (map snd (pushed s)))"
proof -
  define n where "n = length (m_q s)"
  define s2 where "s2 = run cfg [Owner, Owner] s"
  define s3 where "s3 = run cfg (replicate (5 * n) Worker) s2"
  define s4 where "s4 = run cfg [Worker, Worker, Worker, Worker, Worker] s3"
  define s5 where "s5 = run cfg [Owner] s4"
  have f: "finished (producers s 0)" using assms(5) by simp
  have "mutex_inv s" using assms(2) by (rule reachable_mutex_inv)
  have mu: "m_q_mutex s = None"
  proof (cases "m_q_mutex s")
    case None
    then show ?thesis .
  next
    case (Some a)
    then show ?thesis
      using \<open>mutex_inv s\<close> assms(3,5) by (cases a) (auto simp: mutex_inv_def finished_def)
  qed
  have "stream_ok disk0 s" using assms(1,2) by (rule reachable_stream_ok)
  then have op: "out_is_open s" using assms(3) by (simp add: stream_ok_def)
  have b: "wpc s2 = D_Empty False \<and> m_stop s2 \<and> opc s2 = O_Notified \<and> m_q s2 = m_q s
      \<and> m_q_mutex s2 = None \<and> out_is_open s2 \<and> pushed s2 = pushed s"
    using assms(3,4) f mu op
    by (simp add: s2_def owner_step_def notify_one_def finished_def)
  then have c: "wpc s3 = D_Empty False \<and> m_q s3 = [] \<and> m_q_mutex s3 = None
      \<and> opc s3 = O_Notified \<and> out_is_open s3 \<and> m_stop s3 \<and> pushed s3 = pushed s"
    using all_lines[where s = s2 and ls = "m_q s" and cfg = cfg and fin = False]
    by (simp add: s3_def n_def)
  then have d: "wpc s4 = W_Returned \<and> opc s4 = O_Notified \<and> m_q s4 = []
      \<and> pushed s4 = pushed s"
    by (simp add: s4_def worker_step_def)
  then have e: "wpc s5 = W_Returned \<and> opc s5 = O_Joined \<and> m_q s5 = [] \<and> pushed s5 = pushed s"
    by (simp add: s5_def owner_step_def)
  have r: "run cfg (wake_schedule n) s = s5"
    by (simp only: wake_schedule_def run_append s2_def s3_def s4_def s5_def)
  have "reachable cfg disk0 rows s5"
    unfolding r[symmetric] using assms(2) by (rule reachable_run)
  then have "disk s5 = Some (header_line cfg
           @ lines_text (take (length (pushed s5) - length (m_q s5)) (map snd (pushed s5))))"
    using assms(1) e by (intro returned_disk) auto
  then show ?thesis using e r by (simp add: n_def)
qed

section \<open>A logger written by its owner alone\<close>

lemma finished_step_id: "finished (producers s i) \<Longrightarrow> producer_step i s = s"
  by (simp add: finished_def producer_step_def)

lemma solo_inv_step: "solo_inv s \<Longrightarrow> solo_inv (step cfg e s)"
proof (cases e)
  case Worker
  assume "solo_inv s"
  then show ?thesis
    using Worker
    by (cases "wpc s") (simp_all add: solo_inv_def worker_step_def split: list.splits option.splits)
next
  case (Producer i)
  assume a: "solo_inv s"
  show ?thesis
  proof (cases "i = 0")
    case True
    then show ?thesis
      using a Producer by (simp add: solo_inv_def producer_step_other)
  next
    case False
    then have "producer_step i s = s" using a by (simp add: solo_inv_def finished_step_id)
    then show ?thesis using a Producer by simp
  qed
next
  case Owner
  assume "solo_inv s"
  then show ?thesis
    using Owner by (cases "opc s") (simp_all add: solo_inv_def owner_step_def notify_one_def)
next
  case Spurious
  assume "solo_inv s"
  then show ?thesis using Spurious by (simp add: solo_inv_def spurious_wakeup_def)
next
  case (Overflow n)
  assume "solo_inv s"
  then show ?thesis using Overflow by (simp add: solo_inv_def)
qed

lemma producer_step_wpc:
  "\<not> post_drain (wpc s) \<Longrightarrow> \<not> post_drain (wpc (producer_step i s))"
  by (cases "ppc (producers s i)")
    (auto simp: producer_step_def notify_one_def split: list.splits)

lemma quiet_inv_step:
  assumes "can_open cfg" and "stream_ok disk0 s" and "final_inv s" and "owner_inv s"
    and "solo_inv s" and "quiet_inv s"
  shows "quiet_inv (step cfg e s)"
proof (cases e)
  case Worker
  then show ?thesis
    using assms(1,2,6)
    by (cases "wpc s")
      (auto simp: quiet_inv_def worker_step_def stream_ok_def split: list.splits option.splits)
next
  case (Producer i)
  show ?thesis
  proof (cases "post_drain (wpc s)")
    case True
    then have "m_stop s" using assms(3) post_drain_final by (auto simp: final_inv_def)
    then have "finished (producers s 0)" using assms(4) by (auto simp: owner_inv_def)
    then have "finished (producers s i)" using assms(5) by (cases "i = 0") (auto simp: solo_inv_def)
    then show ?thesis using assms(6) Producer by (simp add: finished_step_id)
  next
    case False
    then show ?thesis using Producer producer_step_wpc by (simp add: quiet_inv_def)
  qed
next
  case Owner
  then show ?thesis
    using assms(6) by (cases "opc s") (auto simp: quiet_inv_def owner_step_def notify_one_def)
next
  case Spurious
  then show ?thesis using assms(6) by (auto simp: quiet_inv_def spurious_wakeup_def)
next
  case (Overflow n)
  then show ?thesis using assms(6) by (simp add: quiet_inv_def)
qed

lemma lines_of_empty: "lines_of i log = [] \<Longrightarrow> \<forall>e \<in> set log. fst e \<noteq> i"
  by (auto simp: lines_of_def filter_empty_conv)

lemma lines_of_all:
  assumes "\<forall>i. i \<noteq> 0 \<longrightarrow> lines_of i log = []"
  shows "lines_of 0 log = map snd log"
proof -
  have "\<forall>e \<in> set log. fst e = 0"
    using assms lines_of_empty by blast
  then show ?thesis by (simp add: lines_of_def)
qed

lemma solo_result:
  assumes "can_open cfg" and "\<forall>i. i \<noteq> 0 \<longrightarrow> rows i = []"
    and "opc (run cfg es (init disk0 rows)) = O_Joined"
  shows "disk (run cfg es (init disk0 rows))
         = Some (header_line cfg @ lines_text (map build (rows 0)))"
proof -
  define s where "s = run cfg es (init disk0 rows)"
  have r: "reachable cfg disk0 rows s"
    unfolding s_def by (rule reachable_run) (rule reachable_init)
  have j: "opc s = O_Joined" using assms(3) by (simp add: s_def)
  have "solo_inv (init disk0 rows)"
    using assms(2) by (simp add: solo_inv_def init_def finished_def)
  moreover have "quiet_inv (init disk0 rows)" by (simp add: quiet_inv_def init_def)
  ultimately have "stream_ok disk0 s \<and> final_inv s \<and> owner_inv s \<and> solo_inv s \<and> quiet_inv s"
    using r
    by (intro reachable_invariant[where P = "\<lambda>s. stream_ok disk0 s \<and> final_inv s
          \<and> owner_inv s \<and> solo_inv s \<and> quiet_inv s", OF r])
      (auto simp: stream_ok_init final_inv_init owner_inv_init assms(1)
        intro: stream_ok_step final_inv_step owner_inv_step solo_inv_step quiet_inv_step)
  then have oi: "owner_inv s" and qi: "quiet_inv s" by simp_all
  have w: "wpc s = W_Returned" using oi j by (simp add: owner_inv_def)
  then have q: "m_q s = []" using qi by (simp add: quiet_inv_def)
  have d: "disk s = Some (header_line cfg @ lines_text (map snd (pushed s)))"
    using returned_disk[OF assms(1) r w] q by simp
  have li: "\<forall>i. lines_of i (pushed s) @ unpushed (producers s i) = map build (rows i)"
    using reachable_log_inv[OF r] by (simp add: log_inv_def)
  then have "\<forall>i. i \<noteq> 0 \<longrightarrow> lines_of i (pushed s) = []"
    using assms(2) by (metis append_is_Nil_conv list.map_disc_iff)
  then have a: "lines_of 0 (pushed s) = map snd (pushed s)" by (rule lines_of_all)
  have "finished (producers s 0)" using oi j by (simp add: owner_inv_def)
  then have "unpushed (producers s 0) = []" by (simp add: finished_def unpushed_def)
  then have "lines_of 0 (pushed s) = map build (rows 0)" using li by (metis append_Nil2)
  then show ?thesis using d a by (simp add: s_def)
qed

text \<open>
  C1, as stated, fails: with the rows \<open>(1, 2.0, "a")\<close> and \<open>(2, 3.0, "b")\<close> of a
  \<^verbatim>\<open>CSVWriter<int, double, std::string>\<close> the file does not hold \<^verbatim>\<open>1,2,a\<close> and \<^verbatim>\<open>2,3,b\<close>.
\<close>

theorem C1_counterexample:
  "opc (run ex_cfg ex_schedule (init None ex_rows)) = O_Joined
   \<and> disk (run ex_cfg ex_schedule (init None ex_rows))
       \<noteq> Some (''t,x,y'' @ nl @ ''1,2,a'' @ nl @ ''2,3,b'' @ nl)"
  by (simp add: ex_cfg_def ex_rows_def ex_schedule_def eval_defs)

text \<open>
  C1, amended: there are schedules on which the destructor returns, and whatever the
  schedule and whatever the file held before, once the destructor has returned the file
  holds exactly the three lines \<^verbatim>\<open>t,x,y\<close>, \<^verbatim>\<open>1,2.000000,a\<close> and \<^verbatim>\<open>2,3.000000,b\<close>, each
  followed by a newline: \<^verbatim>\<open>std::to_string\<close> prints a \<^verbatim>\<open>double\<close> with six decimals.
\<close>

theorem C1_header_and_rows:
  "(\<exists>es. opc (run ex_cfg es (init disk0 ex_rows)) = O_Joined)
   \<and> (\<forall>es. opc (run ex_cfg es (init disk0 ex_rows)) = O_Joined \<longrightarrow>
         disk (run ex_cfg es (init disk0 ex_rows))
         = Some (''t,x,y'' @ nl @ ''1,2.000000,a'' @ nl @ ''2,3.000000,b'' @ nl))"
proof -
  have c: "can_open ex_cfg" by (simp add: ex_cfg_def)
  have o: "\<forall>i. i \<noteq> 0 \<longrightarrow> ex_rows i = []" by (simp add: ex_rows_def)
  have h: "header_line ex_cfg = ''t,x,y'' @ nl"
    by (simp add: header_line_def ex_cfg_def header_text_def)
  have b: "map build (ex_rows 0) = [''1,2.000000,a'', ''2,3.000000,b'']"
    by (simp add: ex_rows_def eval_defs)
  have "m_has_header ex_cfg \<longrightarrow> m_header ex_cfg \<noteq> []" by (simp add: ex_cfg_def)
  then have e: "\<exists>es. opc (run ex_cfg es (init disk0 ex_rows)) = O_Joined"
    using calm_schedule_returns[OF c] by blast
  have a: "\<forall>es. opc (run ex_cfg es (init disk0 ex_rows)) = O_Joined \<longrightarrow>
         disk (run ex_cfg es (init disk0 ex_rows))
         = Some (''t,x,y'' @ nl @ ''1,2.000000,a'' @ nl @ ''2,3.000000,b'' @ nl)"
  proof (intro allI impI)
    fix es assume j: "opc (run ex_cfg es (init disk0 ex_rows)) = O_Joined"
    show "disk (run ex_cfg es (init disk0 ex_rows))
         = Some (''t,x,y'' @ nl @ ''1,2.000000,a'' @ nl @ ''2,3.000000,b'' @ nl)"
      using solo_result[OF c o j] by (simp add: h b)
  qed
  from e a show ?thesis ..
qed

theorem C1_header_and_rows_witness:
  "opc (run ex_cfg ex_schedule (init None ex_rows)) = O_Joined
   \<and> disk (run ex_cfg ex_schedule (init None ex_rows))
       = Some (''t,x,y'' @ nl @ ''1,2.000000,a'' @ nl @ ''2,3.000000,b'' @ nl)"
proof -
  have j: "opc (run ex_cfg ex_schedule (init None ex_rows)) = O_Joined"
    by (simp add: ex_cfg_def ex_rows_def ex_schedule_def eval_defs)
  show ?thesis using C1_header_and_rows[of None] j by blast
qed

section \<open>Lost wakeups\<close>

lemma stuck_step:
  assumes "stuck s" and "e \<noteq> Spurious"
  shows "stuck (step cfg e s) \<and> m_q (step cfg e s) = m_q s
       \<and> emitted (step cfg e s) = emitted s \<and> pushed (step cfg e s) = pushed s"
proof (cases e)
  case Worker
  then show ?thesis using assms(1) by (simp add: stuck_def worker_step_def)
next
  case (Producer i)
  then show ?thesis using assms(1) by (simp add: stuck_def finished_step_id)
next
  case Owner
  then show ?thesis using assms(1) by (simp add: stuck_def owner_step_def)
next
  case Spurious
  then show ?thesis using assms(2) by simp
next
  case (Overflow n)
  then show ?thesis using assms(1) by (simp add: stuck_def)
qed

lemma lost_wakeup_permanent:
  "stuck s \<Longrightarrow> Spurious \<notin> set es \<Longrightarrow>
   stuck (run cfg es s) \<and> m_q (run cfg es s) = m_q s \<and> emitted (run cfg es s) = emitted s
   \<and> pushed (run cfg es s) = pushed s"
proof (induction es arbitrary: s)
  case Nil
  then show ?case by simp
next
  case (Cons e es)
  from Cons.prems have "e \<noteq> Spurious" and es: "Spurious \<notin> set es" by auto
  with Cons.prems(1) have "stuck (step cfg e s) \<and> m_q (step cfg e s) = m_q s
      \<and> emitted (step cfg e s) = emitted s \<and> pushed (step cfg e s) = pushed s"
    by (simp add: stuck_step)
  then show ?case using Cons.IH[of "step cfg e s"] es by simp
qed

text \<open>
  C8: the claim is that the worker is never suspended while the queue holds a line or
  stop has been requested. The code loses every notification that arrives while the
  worker is not yet inside \<^verbatim>\<open>wait\<close>. In the first schedule the \<^verbatim>\<open>write\<close> call returns
  before the worker has opened the file: the worker then waits with the line in the
  queue, and stop not requested. In the second the \<^verbatim>\<open>write\<close> call and the first two steps
  of the destructor fall between the worker's test of \<^verbatim>\<open>stop_\<close> and its call of
  \<^verbatim>\<open>wait\<close>: the worker waits with the line in the queue and stop requested, the
  destructor waits in \<^verbatim>\<open>join\<close>, and the stream has received the header only (it is
  still in the stream's buffer: the file is empty). Lemma \<open>lost_stop_forever\<close> below: no
  later step but a spurious wakeup changes that.
\<close>

theorem C8_lost_wakeup:
  "wpc (run ex_cfg ex_lost_row (init None ex_rows1)) = W_Waiting
   \<and> m_q (run ex_cfg ex_lost_row (init None ex_rows1)) = [''1,2.000000,a'']
   \<and> \<not> m_stop (run ex_cfg ex_lost_row (init None ex_rows1))
   \<and> wpc (run ex_cfg ex_lost_stop (init None ex_rows1)) = W_Waiting
   \<and> m_q (run ex_cfg ex_lost_stop (init None ex_rows1)) = [''1,2.000000,a'']
   \<and> m_stop (run ex_cfg ex_lost_stop (init None ex_rows1))
   \<and> opc (run ex_cfg ex_lost_stop (init None ex_rows1)) = O_Notified
   \<and> emitted (run ex_cfg ex_lost_stop (init None ex_rows1)) = ''t,x,y'' @ nl"
  by (simp add: ex_cfg_def ex_rows1_def ex_lost_row_def ex_lost_stop_def eval_defs emitted_def)

lemma lost_stop_stuck: "stuck (run ex_cfg ex_lost_stop (init None ex_rows1))"
  by (simp add: stuck_def finished_def ex_cfg_def ex_rows1_def ex_lost_stop_def eval_defs)

lemma lost_stop_forever:
  "Spurious \<notin> set es \<Longrightarrow>
   wpc (run ex_cfg (ex_lost_stop @ es) (init None ex_rows1)) = W_Waiting
   \<and> opc (run ex_cfg (ex_lost_stop @ es) (init None ex_rows1)) = O_Notified
   \<and> m_q (run ex_cfg (ex_lost_stop @ es) (init None ex_rows1)) = [''1,2.000000,a'']
   \<and> emitted (run ex_cfg (ex_lost_stop @ es) (init None ex_rows1)) = ''t,x,y'' @ nl
   \<and> pushed (run ex_cfg (ex_lost_stop @ es) (init None ex_rows1)) = [(0, ''1,2.000000,a'')]"
proof -
  assume a: "Spurious \<notin> set es"
  have q: "m_q (run ex_cfg ex_lost_stop (init None ex_rows1)) = [''1,2.000000,a'']
      \<and> emitted (run ex_cfg ex_lost_stop (init None ex_rows1)) = ''t,x,y'' @ nl
      \<and> pushed (run ex_cfg ex_lost_stop (init None ex_rows1)) = [(0, ''1,2.000000,a'')]"
    by (simp add: ex_cfg_def ex_rows1_def ex_lost_stop_def eval_defs emitted_def)
  show ?thesis
    using lost_wakeup_permanent[OF lost_stop_stuck a, of ex_cfg] q
    by (simp add: run_append stuck_def)
qed

text \<open>
  C2: the claim is that every line enqueued before \<^verbatim>\<open>stop_\<close> is set is in the file once
  the destructor has completed, because the shutdown sets \<^verbatim>\<open>stop_\<close>, wakes the worker and
  joins it, and the worker drains, flushes and closes. That holds when the destructor
  finds the worker waiting (lemma \<open>waiting_worker_shutdown\<close>), and in every state in which
  \<^verbatim>\<open>join\<close> has returned the file is as claimed (lemma \<open>joined_flush\<close>). But the
  destructor's \<^verbatim>\<open>notify_one\<close> wakes nobody when the worker has tested \<^verbatim>\<open>stop_\<close> and not
  yet called \<^verbatim>\<open>wait\<close>. In the schedule below the file has been opened and the row
  \<^verbatim>\<open>1,2.000000,a\<close> has been pushed when the destructor sets \<^verbatim>\<open>stop_\<close>; after the
  destructor's \<^verbatim>\<open>notify_one\<close> and the worker's call of \<^verbatim>\<open>wait\<close> the worker waits, the
  destructor is in \<^verbatim>\<open>join\<close>, the row is still in the queue, the stream buffer holds the
  header and the file is empty. By lemma \<open>lost_stop_forever\<close> no later step but a
  spurious wakeup changes that: the row is not written and the destructor does not
  complete.
\<close>

theorem C2_row_before_stop_not_written:
  "\<not> m_stop (run ex_cfg ex_lost_push (init None ex_rows1))
   \<and> pushed (run ex_cfg ex_lost_push (init None ex_rows1)) = [(0, ''1,2.000000,a'')]
   \<and> opens (run ex_cfg ex_lost_push (init None ex_rows1)) = 1
   \<and> m_stop (step ex_cfg Owner (run ex_cfg ex_lost_push (init None ex_rows1)))
   \<and> stuck (run ex_cfg [Owner, Worker]
        (step ex_cfg Owner (run ex_cfg ex_lost_push (init None ex_rows1))))
   \<and> opc (run ex_cfg [Owner, Worker]
        (step ex_cfg Owner (run ex_cfg ex_lost_push (init None ex_rows1)))) = O_Notified
   \<and> m_q (run ex_cfg [Owner, Worker]
        (step ex_cfg Owner (run ex_cfg ex_lost_push (init None ex_rows1)))) = [''1,2.000000,a'']
   \<and> out_buffer (run ex_cfg [Owner, Worker]
        (step ex_cfg Owner (run ex_cfg ex_lost_push (init None ex_rows1)))) = ''t,x,y'' @ nl
   \<and> disk (run ex_cfg [Owner, Worker]
        (step ex_cfg Owner (run ex_cfg ex_lost_push (init None ex_rows1)))) = Some []"
  by (simp add: ex_cfg_def ex_rows1_def ex_lost_push_def eval_defs stuck_def finished_def)

end
